theory Spec2Isabelle
  imports Complex_Main "HOL-Library.AList"
begin

section \<open>JavaScript values used by the logger\<close>

text \<open>
  A JavaScript \<open>number\<close>. Finite values are kept as exact rationals (every finite double is
  one; \<open>-0\<close> is identified with \<open>0\<close>, which agrees with \<open>||\<close>, \<open><\<close> and \<open>>=\<close>), and the
  three special values are constructors of their own.
\<close>

datatype number = Num rat | NaN | PosInfinity | NegInfinity

text \<open>\<open>a < b\<close> on numbers: false as soon as one side is \<open>NaN\<close>.\<close>

fun js_lt :: "number \<Rightarrow> number \<Rightarrow> bool" where
  "js_lt NaN b = False"
| "js_lt a NaN = False"
| "js_lt (Num x) (Num y) = (x < y)"
| "js_lt PosInfinity b = False"
| "js_lt a PosInfinity = True"
| "js_lt a NegInfinity = False"
| "js_lt NegInfinity b = True"

text \<open>\<open>a >= b\<close> on numbers: false as soon as one side is \<open>NaN\<close>, otherwise \<open>!(a < b)\<close>.\<close>

definition js_ge :: "number \<Rightarrow> number \<Rightarrow> bool" where
  "js_ge a b = (a \<noteq> NaN \<and> b \<noteq> NaN \<and> \<not> js_lt a b)"

text \<open>Truthiness: \<open>0\<close>, \<open>NaN\<close>, the empty string and \<open>undefined\<close> are falsy.\<close>

fun truthy_number :: "number \<Rightarrow> bool" where
  "truthy_number (Num q) = (q \<noteq> 0)"
| "truthy_number NaN = False"
| "truthy_number PosInfinity = True"
| "truthy_number NegInfinity = True"

definition truthy_string :: "string \<Rightarrow> bool" where
  "truthy_string s = (s \<noteq> [])"

text \<open>
  \<open>x || d\<close> for an optional property \<open>x\<close> (\<open>None\<close> is \<open>undefined\<close>): the left operand when
  it is truthy, the right operand otherwise.
\<close>

definition or_number :: "number option \<Rightarrow> number \<Rightarrow> number" where
  "or_number x d = (case x of None \<Rightarrow> d | Some v \<Rightarrow> if truthy_number v then v else d)"

definition or_string :: "string option \<Rightarrow> string \<Rightarrow> string" where
  "or_string x d = (case x of None \<Rightarrow> d | Some v \<Rightarrow> if truthy_string v then v else d)"

text \<open>\<open>String.prototype.toUpperCase\<close> on ASCII text (the level names are ASCII).\<close>

definition upper_char :: "char \<Rightarrow> char" where
  "upper_char c =
     (let n = (of_char c :: nat) in if 97 \<le> n \<and> n \<le> 122 then char_of (n - 32) else c)"

definition toUpperCase :: "string \<Rightarrow> string" where
  "toUpperCase s = map upper_char s"

text \<open>
  Integer-valued numbers. A JavaScript number is a double, with a significand of 53 bits;
  \<open>round_double n\<close> is the double nearest to the natural number \<open>n\<close>, a tie going to the
  even significand, as every arithmetic operation rounds its exact result. (It is used
  below the magnitude that rounds to infinity.)
\<close>

fun bit_length :: "nat \<Rightarrow> nat" where
  "bit_length n = (if n = 0 then 0 else Suc (bit_length (n div 2)))"

declare bit_length.simps [simp del]

definition round_double :: "nat \<Rightarrow> nat" where
  "round_double n =
     (if n < 2 ^ 53 then n
      else let e = bit_length n - 53; q = n div 2 ^ e; r = n mod 2 ^ e; half = 2 ^ (e - 1)
           in if r < half \<or> (r = half \<and> even q) then q * 2 ^ e else (q + 1) * 2 ^ e)"

text \<open>The decimal digits of a natural number.\<close>

fun dec_nat :: "nat \<Rightarrow> string" where
  "dec_nat n =
     (if n < 10 then [char_of (48 + n)] else dec_nat (n div 10) @ [char_of (48 + n mod 10)])"

declare dec_nat.simps [simp del]

text \<open>
  \<open>Number.prototype.toString\<close> (radix 10) on a positive integer-valued double \<open>x\<close>. The
  digits printed are those of the number with the fewest significant digits that rounds to
  \<open>x\<close>, and of the one nearest to \<open>x\<close> when there are two (the one with the even last
  digit when both are equally near). \<open>shortest x p\<close> looks for it among the multiples of
  \<open>10^p\<close>, then of \<open>10^(p-1)\<close>, and so on: of the multiples of one power only the two next to
  \<open>x\<close> can round to \<open>x\<close> or be nearest, and \<open>x\<close> itself is left at the power \<open>10^0\<close>. The
  search starts at the power of the leading digit of \<open>x\<close>. A number of at most 21 digits
  is printed in full; a longer one as its significant digits, with a point after the first
  when there are several, followed by \<open>e+\<close> and the exponent.
\<close>

definition rounds_to :: "nat \<Rightarrow> nat \<Rightarrow> bool" where
  "rounds_to x v \<longleftrightarrow> 0 < v \<and> round_double v = x"

definition below :: "nat \<Rightarrow> nat \<Rightarrow> nat" where
  "below x p = (x div 10 ^ p) * 10 ^ p"

definition above :: "nat \<Rightarrow> nat \<Rightarrow> nat" where
  "above x p = below x p + 10 ^ p"

definition nearer :: "nat \<Rightarrow> nat \<Rightarrow> nat" where
  "nearer x p =
     (if x - below x p < above x p - x then below x p
      else if above x p - x < x - below x p then above x p
      else if even (x div 10 ^ p) then below x p else above x p)"

fun shortest :: "nat \<Rightarrow> nat \<Rightarrow> nat" where
  "shortest x p =
     (if p = 0 then x
      else if rounds_to x (below x p) \<and> rounds_to x (above x p) then nearer x p
      else if rounds_to x (below x p) then below x p
      else if rounds_to x (above x p) then above x p
      else shortest x (p - 1))"

declare shortest.simps [simp del]

definition strip_zeros :: "string \<Rightarrow> string" where
  "strip_zeros ds = rev (dropWhile (\<lambda>c. c = CHR ''0'') (rev ds))"

definition double_text :: "nat \<Rightarrow> string" where
  "double_text x =
     (let ds = dec_nat (shortest x (length (dec_nat x) - 1)); n = length ds
      in if n \<le> 21 then ds
         else (case strip_zeros ds of
                 [] \<Rightarrow> []
               | [d] \<Rightarrow> [d]
               | d # more \<Rightarrow> d # CHR ''.'' # more) @ ''e+'' @ dec_nat (n - 1))"

text \<open>
  The text of the number that an exact integer stands for: the double nearest to it, or
  an infinity from \<open>2^1024 - 2^970\<close> on. The product of two integer-valued doubles is the
  number that their exact product stands for.
\<close>

definition magnitude_text :: "nat \<Rightarrow> string" where
  "magnitude_text n =
     (if n = 0 then ''0''
      else if 2 ^ 1024 - 2 ^ 970 \<le> n then ''Infinity''
      else double_text (round_double n))"

definition Number_toString :: "int \<Rightarrow> string" where
  "Number_toString i =
     (if i < 0 then CHR ''-'' # magnitude_text (nat (- i)) else magnitude_text (nat i))"


section \<open>config.ts\<close>

text \<open>
  An optional property of an object literal: not written at all, written with the value
  \<open>undefined\<close>, or written with a value. The spread \<open>{...config, ...c}\<close> copies the last two,
  the operator \<open>??\<close> treats the first two alike.
\<close>

datatype 'a property = Absent | Undefined | Value 'a

definition spread :: "'a property \<Rightarrow> 'a property \<Rightarrow> 'a property" where
  "spread old new = (case new of Absent \<Rightarrow> old | Undefined \<Rightarrow> Undefined | Value v \<Rightarrow> Value v)"

definition nullish :: "'a property \<Rightarrow> 'a \<Rightarrow> 'a" where
  "nullish p d = (case p of Value v \<Rightarrow> v | Absent \<Rightarrow> d | Undefined \<Rightarrow> d)"

text \<open>\<open>A11yLoggerConfig\<close>: every field optional.\<close>

record A11yLoggerConfig =
  lokiUrl_opt :: "string property"
  lokiEnabled_opt :: "bool property"
  isDevelopment_opt :: "bool property"
  flushInterval_opt :: "number property"
  maxBufferSize_opt :: "number property"
  jobLabel_opt :: "string property"
  containerLabel_opt :: "string property"
  environment_opt :: "string property"
  serviceLabel_opt :: "string property"
  registerShutdownHook_opt :: "bool property"

text \<open>\<open>Required<A11yLoggerConfig>\<close>: every field present.\<close>

record ResolvedConfig =
  lokiUrl :: string
  lokiEnabled :: bool
  isDevelopment :: bool
  flushInterval :: number
  maxBufferSize :: number
  jobLabel :: string
  containerLabel :: string
  environment :: string
  serviceLabel :: string
  registerShutdownHook :: bool

definition DEFAULTS :: ResolvedConfig where
  "DEFAULTS = \<lparr>
     lokiUrl = ''http://localhost:3100'',
     lokiEnabled = False,
     isDevelopment = False,
     flushInterval = Num 1000,
     maxBufferSize = Num 100,
     jobLabel = ''accessibility'',
     containerLabel = ''stonewall-sveltekit'',
     environment = ''development'',
     serviceLabel = ''a11y-monitoring'',
     registerShutdownHook = True \<rparr>"

text \<open>The module variable \<open>config\<close> starts as the empty object.\<close>

definition empty_config :: A11yLoggerConfig where
  "empty_config = \<lparr>
     lokiUrl_opt = Absent, lokiEnabled_opt = Absent, isDevelopment_opt = Absent,
     flushInterval_opt = Absent, maxBufferSize_opt = Absent, jobLabel_opt = Absent,
     containerLabel_opt = Absent, environment_opt = Absent, serviceLabel_opt = Absent,
     registerShutdownHook_opt = Absent \<rparr>"

text \<open>\<open>configureA11yLogger(c)\<close>: \<open>config = { ...config, ...c }\<close>.\<close>

definition configureA11yLogger :: "A11yLoggerConfig \<Rightarrow> A11yLoggerConfig \<Rightarrow> A11yLoggerConfig" where
  "configureA11yLogger c config = \<lparr>
     lokiUrl_opt = spread (lokiUrl_opt config) (lokiUrl_opt c),
     lokiEnabled_opt = spread (lokiEnabled_opt config) (lokiEnabled_opt c),
     isDevelopment_opt = spread (isDevelopment_opt config) (isDevelopment_opt c),
     flushInterval_opt = spread (flushInterval_opt config) (flushInterval_opt c),
     maxBufferSize_opt = spread (maxBufferSize_opt config) (maxBufferSize_opt c),
     jobLabel_opt = spread (jobLabel_opt config) (jobLabel_opt c),
     containerLabel_opt = spread (containerLabel_opt config) (containerLabel_opt c),
     environment_opt = spread (environment_opt config) (environment_opt c),
     serviceLabel_opt = spread (serviceLabel_opt config) (serviceLabel_opt c),
     registerShutdownHook_opt =
       spread (registerShutdownHook_opt config) (registerShutdownHook_opt c) \<rparr>"

text \<open>\<open>getA11yLoggerConfig()\<close>: each field is \<open>config.f ?? DEFAULTS.f\<close>.\<close>

definition getA11yLoggerConfig :: "A11yLoggerConfig \<Rightarrow> ResolvedConfig" where
  "getA11yLoggerConfig config = \<lparr>
     lokiUrl = nullish (lokiUrl_opt config) (lokiUrl DEFAULTS),
     lokiEnabled = nullish (lokiEnabled_opt config) (lokiEnabled DEFAULTS),
     isDevelopment = nullish (isDevelopment_opt config) (isDevelopment DEFAULTS),
     flushInterval = nullish (flushInterval_opt config) (flushInterval DEFAULTS),
     maxBufferSize = nullish (maxBufferSize_opt config) (maxBufferSize DEFAULTS),
     jobLabel = nullish (jobLabel_opt config) (jobLabel DEFAULTS),
     containerLabel = nullish (containerLabel_opt config) (containerLabel DEFAULTS),
     environment = nullish (environment_opt config) (environment DEFAULTS),
     serviceLabel = nullish (serviceLabel_opt config) (serviceLabel DEFAULTS),
     registerShutdownHook =
       nullish (registerShutdownHook_opt config) (registerShutdownHook DEFAULTS) \<rparr>"

text \<open>\<open>resetA11yLoggerConfig()\<close>: \<open>config = {}\<close>.\<close>

definition resetA11yLoggerConfig :: "A11yLoggerConfig \<Rightarrow> A11yLoggerConfig" where
  "resetA11yLoggerConfig config = empty_config"


section \<open>types.ts\<close>

datatype level = Info | Warn | Error

fun level_name :: "level \<Rightarrow> string" where
  "level_name Info = ''info''"
| "level_name Warn = ''warn''"
| "level_name Error = ''error''"

text \<open>A label value is a string or a number (\<open>Record<string, string | number>\<close>).\<close>

datatype label_value = Str string | Number number

type_synonym label_map = "(string \<times> label_value) list"

text \<open>
  \<open>A11yLogEntry\<close>. The source stores the time as the ISO-8601 text of \<open>new Date()\<close> and
  reads it back with \<open>new Date(text).getTime()\<close>; the record keeps the time value itself
  (milliseconds since the epoch), which that round trip returns.
\<close>

record A11yLogEntry =
  level :: level
  message :: string
  timestamp :: int
  sessionId :: "string option"
  labels :: label_map

record ElementInfo =
  tagName :: string
  detail :: "string option"

record ContrastLabels =
  c_sessionId :: "string option"
  c_selector :: "string option"
  c_ratio :: "number option"
  c_requiredRatio :: "number option"
  c_foreground :: "string option"
  c_background :: "string option"
  c_wcagLevel :: "string option"
  c_elementInfo :: "ElementInfo option"
  c_page :: "string option"
  c_theme :: "string option"

record WcagLabels =
  w_sessionId :: "string option"
  w_selector :: "string option"
  w_rule :: "string option"
  w_wcagLevel :: "string option"
  w_severity :: "string option"

record EvaluationLabels =
  ev_sessionId :: "string option"
  ev_resultsCount :: "number option"
  ev_issuesCount :: "number option"
  ev_criticalCount :: "number option"
  ev_evaluationTimeMs :: "number option"

record SessionLabels =
  se_sessionId :: "string option"
  se_action :: "string option"
  se_userId :: "string option"
  se_userAgent :: "string option"

record ErrorLabels =
  er_sessionId :: "string option"
  er_error :: "string option"
  er_stack :: "string option"

record AriaLabels =
  ar_sessionId :: "string option"
  ar_selector :: "string option"
  ar_issue :: "string option"
  ar_elementInfo :: "ElementInfo option"
  ar_fix :: "string option"
  ar_page :: "string option"

text \<open>\<open>SummaryData\<close>: all five counts are required; they are integer counts.\<close>

record SummaryData =
  su_totalElements :: int
  su_evaluatedElements :: int
  su_issues :: int
  su_criticalIssues :: int
  su_evaluationTimeMs :: int
  su_sessionId :: "string option"


section \<open>The logger's state and the runtime it talks to\<close>

text \<open>A pending \<open>setTimeout\<close> task of the runtime.\<close>

record Timeout =
  handle :: nat
  delay :: number
  unrefd :: bool

text \<open>
  The push payload. \<open>stream\<close> and each log line are objects, kept as association lists in
  key order; the text that \<open>JSON.stringify\<close> makes of them is not modelled.
\<close>

record LokiStream =
  stream :: "(string \<times> string) list"
  "values" :: "(string \<times> label_map) list"

record Request =
  url :: string
  http_method :: string
  headers :: "(string \<times> string) list"
  body :: "LokiStream list"

text \<open>
  Arrays live in a store (\<open>arrays\<close>, allocated upwards from \<open>next_addr\<close>), because the
  source mutates the queue in place and copies it with \<open>[...logBuffer]\<close>. The module
  variables keep their names. The rest is the runtime: pending timeouts, \<open>beforeExit\<close>
  listeners, what was written to the console, every \<open>fetch\<close> call made and the indices of
  those whose promise has not settled yet. \<open>detached\<close> lists the \<open>logsToSend\<close> array of
  every flush that detached a batch, oldest first.
\<close>

record state =
  arrays :: "nat \<Rightarrow> A11yLogEntry list"
  next_addr :: nat
  logBuffer :: nat
  flushTimer :: "nat option"
  shutdownHookRegistered :: bool
  config :: A11yLoggerConfig
  has_process :: bool
  timer_has_unref :: bool
  timers :: "Timeout list"
  next_handle :: nat
  beforeExit_listeners :: nat
  console_log :: "(string \<times> label_map) list"
  console_error :: "(string \<times> string) list"
  fetch_calls :: "Request list"
  awaiting :: "nat list"
  detached :: "nat list"

text \<open>The state when the modules have been loaded, on a given platform.\<close>

definition initial_state :: "bool \<Rightarrow> bool \<Rightarrow> state" where
  "initial_state proc can_unref = \<lparr>
     arrays = (\<lambda>a. []), next_addr = 1, logBuffer = 0, flushTimer = None,
     shutdownHookRegistered = False, config = empty_config,
     has_process = proc, timer_has_unref = can_unref, timers = [], next_handle = 1,
     beforeExit_listeners = 0, console_log = [], console_error = [], fetch_calls = [],
     awaiting = [], detached = [] \<rparr>"

text \<open>The contents of the queue.\<close>

definition queue :: "state \<Rightarrow> A11yLogEntry list" where
  "queue s = arrays s (logBuffer s)"

text \<open>A new array with the given elements; its address is \<open>next_addr\<close> of the state before.\<close>

definition new_array :: "A11yLogEntry list \<Rightarrow> state \<Rightarrow> state" where
  "new_array xs s = s\<lparr>arrays := (arrays s)(next_addr s := xs), next_addr := Suc (next_addr s)\<rparr>"

text \<open>\<open>setTimeout\<close> (the new handle is \<open>next_handle\<close> of the state before), \<open>clearTimeout\<close>
  and \<open>unref\<close>.\<close>

definition setTimeout :: "number \<Rightarrow> state \<Rightarrow> state" where
  "setTimeout d s =
     s\<lparr>timers := timers s @ [\<lparr>handle = next_handle s, delay = d, unrefd = False\<rparr>],
       next_handle := Suc (next_handle s)\<rparr>"

definition clearTimeout :: "nat \<Rightarrow> state \<Rightarrow> state" where
  "clearTimeout h s = s\<lparr>timers := filter (\<lambda>t. handle t \<noteq> h) (timers s)\<rparr>"

definition unref :: "nat \<Rightarrow> state \<Rightarrow> state" where
  "unref h s = s\<lparr>timers := map (\<lambda>t. if handle t = h then t\<lparr>unrefd := True\<rparr> else t) (timers s)\<rparr>"

definition console_log_call :: "string \<Rightarrow> label_map \<Rightarrow> state \<Rightarrow> state" where
  "console_log_call text ctx s = s\<lparr>console_log := console_log s @ [(text, ctx)]\<rparr>"

definition console_error_call :: "string \<Rightarrow> string \<Rightarrow> state \<Rightarrow> state" where
  "console_error_call text err s = s\<lparr>console_error := console_error s @ [(text, err)]\<rparr>"

text \<open>\<open>fetch\<close>: the call is recorded and its promise is pending.\<close>

definition fetch :: "Request \<Rightarrow> state \<Rightarrow> state" where
  "fetch req s =
     s\<lparr>fetch_calls := fetch_calls s @ [req], awaiting := awaiting s @ [length (fetch_calls s)]\<rparr>"


section \<open>a11y-logger.ts\<close>

text \<open>The object \<open>{ level: log.level, msg: log.message, ...log.labels }\<close>.\<close>

definition line_object :: "A11yLogEntry \<Rightarrow> label_map" where
  "line_object lg =
     fold (\<lambda>(k, v). AList.update k v) (labels lg)
       [(''level'', Str (level_name (level lg))), (''msg'', Str (message lg))]"

text \<open>
  One element of \<open>values\<close>. The time value is an integer below \<open>2^53\<close> in magnitude, so
  the double product \<open>getTime() * 1000000\<close> is the double nearest to the exact product.
\<close>

definition value_pair :: "A11yLogEntry \<Rightarrow> string \<times> label_map" where
  "value_pair lg = (Number_toString (timestamp lg * 1000000), line_object lg)"

definition streams_of :: "ResolvedConfig \<Rightarrow> A11yLogEntry list \<Rightarrow> LokiStream list" where
  "streams_of cfg logsToSend =
     [\<lparr>stream = [(''job'', jobLabel cfg), (''container'', containerLabel cfg),
                 (''environment'', environment cfg), (''service'', serviceLabel cfg)],
       values = map value_pair logsToSend\<rparr>]"

definition push_request :: "ResolvedConfig \<Rightarrow> A11yLogEntry list \<Rightarrow> Request" where
  "push_request cfg logsToSend =
     \<lparr>url = lokiUrl cfg @ ''/loki/api/v1/push'', http_method = ''POST'',
      headers = [(''Content-Type'', ''application/json'')],
      body = streams_of cfg logsToSend\<rparr>"

text \<open>The text of the local echo of one entry.\<close>

definition echo_text :: "A11yLogEntry \<Rightarrow> string" where
  "echo_text lg = ''[A11y '' @ toUpperCase (level_name (level lg)) @ ''] '' @ message lg"

text \<open>
  \<open>flushLogs\<close> up to its only suspension point, \<open>await fetch(...)\<close>: what one call does
  before control returns to the caller.
\<close>

definition flushLogs :: "state \<Rightarrow> state" where
  "flushLogs s =
     (if length (arrays s (logBuffer s)) = 0 then s
      else
        let logsToSend = next_addr s;
            s1 = new_array (arrays s (logBuffer s)) s;
            s2 = (new_array [] s1)\<lparr>logBuffer := next_addr s1\<rparr>;
            s3 = s2\<lparr>detached := detached s2 @ [logsToSend]\<rparr>;
            cfg = getA11yLoggerConfig (config s3)
        in if \<not> lokiEnabled cfg
           then fold (\<lambda>lg st. if isDevelopment cfg
                                then console_log_call (echo_text lg) (labels lg) st else st)
                  (arrays s3 logsToSend) s3
           else fetch (push_request cfg (arrays s3 logsToSend)) s3)"

text \<open>
  The rest of \<open>flushLogs\<close>, run when the promise of its \<open>fetch\<close> settles: nothing when it
  resolved (the response is not looked at), the \<open>catch\<close> block when it rejected. A
  \<open>fetch\<close> that throws at once reaches the same \<open>catch\<close> block: it is a rejection that
  settles before any other event. The first component is how the promise of \<open>flushLogs\<close>
  itself completes.
\<close>

datatype fetch_outcome = Resolves | Rejects string

datatype completion = Fulfilled | Thrown string

definition flushLogs_resume :: "fetch_outcome \<Rightarrow> state \<Rightarrow> completion \<times> state" where
  "flushLogs_resume out s =
     (case out of
        Resolves \<Rightarrow> (Fulfilled, s)
      | Rejects err \<Rightarrow>
          (Fulfilled, console_error_call ''[A11y Logger] Failed to send logs to Loki:'' err s))"

definition scheduleFlush :: "state \<Rightarrow> state" where
  "scheduleFlush s =
     (case flushTimer s of
        Some h \<Rightarrow> s
      | None \<Rightarrow>
          let cfg = getA11yLoggerConfig (config s);
              h = next_handle s;
              s1 = (setTimeout (flushInterval cfg) s)\<lparr>flushTimer := Some h\<rparr>
          in if timer_has_unref s1 then unref h s1 else s1)"

text \<open>The callback given to \<open>setTimeout\<close>.\<close>

definition timer_callback :: "state \<Rightarrow> state" where
  "timer_callback s = flushLogs (s\<lparr>flushTimer := None\<rparr>)"

text \<open>\<open>if (flushTimer) { clearTimeout(flushTimer); flushTimer = null; }\<close>\<close>

definition cancel_timer :: "state \<Rightarrow> state" where
  "cancel_timer s =
     (case flushTimer s of None \<Rightarrow> s | Some h \<Rightarrow> (clearTimeout h s)\<lparr>flushTimer := None\<rparr>)"

definition push :: "A11yLogEntry \<Rightarrow> state \<Rightarrow> state" where
  "push entry s = s\<lparr>arrays := (arrays s)(logBuffer s := arrays s (logBuffer s) @ [entry])\<rparr>"

definition addLog :: "A11yLogEntry \<Rightarrow> state \<Rightarrow> state" where
  "addLog entry s =
     (let s1 = push entry s;
          cfg = getA11yLoggerConfig (config s1)
      in if js_ge (Num (of_nat (length (arrays s1 (logBuffer s1))))) (maxBufferSize cfg)
         then flushLogs (cancel_timer s1)
         else scheduleFlush s1)"

definition ensureShutdownHook :: "state \<Rightarrow> state" where
  "ensureShutdownHook s =
     (if shutdownHookRegistered s then s
      else if \<not> registerShutdownHook (getA11yLoggerConfig (config s)) then s
      else if has_process s
        then s\<lparr>beforeExit_listeners := Suc (beforeExit_listeners s),
               shutdownHookRegistered := True\<rparr>
        else s)"

text \<open>
  The recording methods of \<open>a11yLogger\<close>. Each is split into the entry it builds (with
  \<open>now\<close> the time value of \<open>new Date()\<close>) and the method itself.
\<close>

definition contrast_entry :: "int \<Rightarrow> string \<Rightarrow> ContrastLabels \<Rightarrow> A11yLogEntry" where
  "contrast_entry now msg lbls = \<lparr>
     level = (if (case c_ratio lbls of None \<Rightarrow> False | Some r \<Rightarrow> js_lt r (Num 3))
              then Error else Warn),
     message = msg,
     timestamp = now,
     sessionId = c_sessionId lbls,
     labels = [
       (''type'', Str ''contrast''),
       (''selector'', Str (or_string (c_selector lbls) ''unknown'')),
       (''ratio'', Number (or_number (c_ratio lbls) (Num 0))),
       (''requiredRatio'', Number (or_number (c_requiredRatio lbls) (Num (9 / 2)))),
       (''foreground'', Str (or_string (c_foreground lbls) ''unknown'')),
       (''background'', Str (or_string (c_background lbls) ''unknown'')),
       (''wcagLevel'', Str (or_string (c_wcagLevel lbls) ''AA'')),
       (''tagName'', Str (or_string (map_option tagName (c_elementInfo lbls)) ''unknown'')),
       (''page'', Str (or_string (c_page lbls) [])),
       (''theme'', Str (or_string (c_theme lbls) []))] \<rparr>"

definition contrast :: "int \<Rightarrow> string \<Rightarrow> ContrastLabels \<Rightarrow> state \<Rightarrow> state" where
  "contrast now msg lbls s = addLog (contrast_entry now msg lbls) (ensureShutdownHook s)"

definition wcag_entry :: "int \<Rightarrow> string \<Rightarrow> WcagLabels \<Rightarrow> A11yLogEntry" where
  "wcag_entry now msg lbls = \<lparr>
     level = (if w_severity lbls = Some ''error'' then Error else Warn),
     message = msg,
     timestamp = now,
     sessionId = w_sessionId lbls,
     labels = [
       (''type'', Str ''wcag''),
       (''selector'', Str (or_string (w_selector lbls) ''unknown'')),
       (''rule'', Str (or_string (w_rule lbls) ''unknown'')),
       (''wcagLevel'', Str (or_string (w_wcagLevel lbls) ''AA'')),
       (''severity'', Str (or_string (w_severity lbls) ''warning''))] \<rparr>"

definition wcag :: "int \<Rightarrow> string \<Rightarrow> WcagLabels \<Rightarrow> state \<Rightarrow> state" where
  "wcag now msg lbls s = addLog (wcag_entry now msg lbls) (ensureShutdownHook s)"

definition evaluation_entry :: "int \<Rightarrow> string \<Rightarrow> EvaluationLabels \<Rightarrow> A11yLogEntry" where
  "evaluation_entry now msg lbls = \<lparr>
     level = Info,
     message = msg,
     timestamp = now,
     sessionId = ev_sessionId lbls,
     labels = [
       (''type'', Str ''evaluation''),
       (''resultsCount'', Number (or_number (ev_resultsCount lbls) (Num 0))),
       (''issuesCount'', Number (or_number (ev_issuesCount lbls) (Num 0))),
       (''criticalCount'', Number (or_number (ev_criticalCount lbls) (Num 0))),
       (''evaluationTimeMs'', Number (or_number (ev_evaluationTimeMs lbls) (Num 0)))] \<rparr>"

definition evaluation :: "int \<Rightarrow> string \<Rightarrow> EvaluationLabels \<Rightarrow> state \<Rightarrow> state" where
  "evaluation now msg lbls s = addLog (evaluation_entry now msg lbls) (ensureShutdownHook s)"

definition session_entry :: "int \<Rightarrow> string \<Rightarrow> SessionLabels \<Rightarrow> A11yLogEntry" where
  "session_entry now msg lbls = \<lparr>
     level = Info,
     message = msg,
     timestamp = now,
     sessionId = se_sessionId lbls,
     labels = [
       (''type'', Str ''session''),
       (''action'', Str (or_string (se_action lbls) ''unknown'')),
       (''userId'', Str (or_string (se_userId lbls) ''anonymous'')),
       (''userAgent'', Str (or_string (se_userAgent lbls) ''unknown''))] \<rparr>"

definition session :: "int \<Rightarrow> string \<Rightarrow> SessionLabels \<Rightarrow> state \<Rightarrow> state" where
  "session now msg lbls s = addLog (session_entry now msg lbls) (ensureShutdownHook s)"

definition error_entry :: "int \<Rightarrow> string \<Rightarrow> ErrorLabels \<Rightarrow> A11yLogEntry" where
  "error_entry now msg lbls = \<lparr>
     level = Error,
     message = msg,
     timestamp = now,
     sessionId = er_sessionId lbls,
     labels = [
       (''type'', Str ''error''),
       (''error'', Str (or_string (er_error lbls) ''unknown'')),
       (''stack'', Str (or_string (er_stack lbls) []))] \<rparr>"

definition error :: "int \<Rightarrow> string \<Rightarrow> ErrorLabels \<Rightarrow> state \<Rightarrow> state" where
  "error now msg lbls s = addLog (error_entry now msg lbls) (ensureShutdownHook s)"

definition summary_entry :: "int \<Rightarrow> SummaryData \<Rightarrow> A11yLogEntry" where
  "summary_entry now data = \<lparr>
     level = Info,
     message = ''Accessibility summary: '' @ Number_toString (su_issues data) @ '' issues (''
               @ Number_toString (su_criticalIssues data) @ '' critical)'',
     timestamp = now,
     sessionId = su_sessionId data,
     labels = [
       (''type'', Str ''summary''),
       (''totalElements'', Number (Num (of_int (su_totalElements data)))),
       (''evaluatedElements'', Number (Num (of_int (su_evaluatedElements data)))),
       (''issues'', Number (Num (of_int (su_issues data)))),
       (''criticalIssues'', Number (Num (of_int (su_criticalIssues data)))),
       (''evaluationTimeMs'', Number (Num (of_int (su_evaluationTimeMs data))))] \<rparr>"

definition summary :: "int \<Rightarrow> SummaryData \<Rightarrow> state \<Rightarrow> state" where
  "summary now data s = addLog (summary_entry now data) (ensureShutdownHook s)"

definition aria_entry :: "int \<Rightarrow> string \<Rightarrow> AriaLabels \<Rightarrow> A11yLogEntry" where
  "aria_entry now msg lbls = \<lparr>
     level = Warn,
     message = msg,
     timestamp = now,
     sessionId = ar_sessionId lbls,
     labels = [
       (''type'', Str ''aria''),
       (''selector'', Str (or_string (ar_selector lbls) ''unknown'')),
       (''issue'', Str (or_string (ar_issue lbls) ''unknown'')),
       (''tagName'', Str (or_string (map_option tagName (ar_elementInfo lbls)) ''unknown'')),
       (''fix'', Str (or_string (ar_fix lbls) [])),
       (''page'', Str (or_string (ar_page lbls) []))] \<rparr>"

definition aria :: "int \<Rightarrow> string \<Rightarrow> AriaLabels \<Rightarrow> state \<Rightarrow> state" where
  "aria now msg lbls s = addLog (aria_entry now msg lbls) (ensureShutdownHook s)"

text \<open>
  \<open>a11yLogger.flush()\<close> up to its \<open>await\<close>, and its completion once \<open>flushLogs\<close> has
  completed (an \<open>await\<close> hands a rejection on to the caller).
\<close>

definition flush :: "state \<Rightarrow> state" where
  "flush s = flushLogs (cancel_timer s)"

definition flush_resume :: "fetch_outcome \<Rightarrow> state \<Rightarrow> completion \<times> state" where
  "flush_resume out s = flushLogs_resume out s"

text \<open>
  The exported test helpers \<open>_getLogBuffer\<close>, \<open>_resetInternalState\<close> and
  \<open>_hasFlushTimer\<close>. \<open>getLogBuffer\<close> returns the address of the array it makes.
\<close>

definition getLogBuffer :: "state \<Rightarrow> nat \<times> state" where
  "getLogBuffer s = (next_addr s, new_array (arrays s (logBuffer s)) s)"

definition resetInternalState :: "state \<Rightarrow> state" where
  "resetInternalState s =
     (let s1 = cancel_timer s;
          s2 = (new_array [] s1)\<lparr>logBuffer := next_addr s1\<rparr>
      in s2\<lparr>shutdownHookRegistered := False\<rparr>)"

definition hasFlushTimer :: "state \<Rightarrow> bool" where
  "hasFlushTimer s = (flushTimer s \<noteq> None)"

text \<open>
  What a caller can do to an array it holds: any change of its elements (append, remove,
  replace), in place.
\<close>

definition mutate_array :: "nat \<Rightarrow> (A11yLogEntry list \<Rightarrow> A11yLogEntry list) \<Rightarrow> state \<Rightarrow> state" where
  "mutate_array a f s = s\<lparr>arrays := (arrays s)(a := f (arrays s a))\<rparr>"


section \<open>Runs of the system\<close>

text \<open>
  JavaScript runs one task at a time, so a run is a sequence of events, each handled to
  its end (or to its \<open>await\<close>): a call of the public interface, a pending timeout firing,
  the promise of a \<open>fetch\<close> call settling, the process announcing its exit.
\<close>

datatype event =
    Contrast int string ContrastLabels
  | Wcag int string WcagLabels
  | Evaluation int string EvaluationLabels
  | Session int string SessionLabels
  | ErrorEvent int string ErrorLabels
  | Summary int SummaryData
  | Aria int string AriaLabels
  | Flush
  | TimerFires nat
  | FetchSettles nat fetch_outcome
  | BeforeExit
  | Configure A11yLoggerConfig
  | ResetConfig
  | ResetInternalState

fun step :: "event \<Rightarrow> state \<Rightarrow> state" where
  "step (Contrast now msg lbls) s = contrast now msg lbls s"
| "step (Wcag now msg lbls) s = wcag now msg lbls s"
| "step (Evaluation now msg lbls) s = evaluation now msg lbls s"
| "step (Session now msg lbls) s = session now msg lbls s"
| "step (ErrorEvent now msg lbls) s = error now msg lbls s"
| "step (Summary now data) s = summary now data s"
| "step (Aria now msg lbls) s = aria now msg lbls s"
| "step Flush s = flush s"
| "step (TimerFires h) s =
     (if h \<in> handle ` set (timers s) then timer_callback (clearTimeout h s) else s)"
| "step (FetchSettles i out) s =
     (if i \<in> set (awaiting s)
      then snd (flushLogs_resume out (s\<lparr>awaiting := removeAll i (awaiting s)\<rparr>)) else s)"
| "step BeforeExit s = (flush ^^ beforeExit_listeners s) s"
| "step (Configure c) s = s\<lparr>config := configureA11yLogger c (config s)\<rparr>"
| "step ResetConfig s = s\<lparr>config := resetA11yLoggerConfig (config s)\<rparr>"
| "step ResetInternalState s = resetInternalState s"

definition run :: "event list \<Rightarrow> state \<Rightarrow> state" where
  "run evs s = fold step evs s"

text \<open>The entries that the recording calls of a run hand to \<open>addLog\<close>, in call order.\<close>

fun entry_of :: "event \<Rightarrow> A11yLogEntry list" where
  "entry_of (Contrast now msg lbls) = [contrast_entry now msg lbls]"
| "entry_of (Wcag now msg lbls) = [wcag_entry now msg lbls]"
| "entry_of (Evaluation now msg lbls) = [evaluation_entry now msg lbls]"
| "entry_of (Session now msg lbls) = [session_entry now msg lbls]"
| "entry_of (ErrorEvent now msg lbls) = [error_entry now msg lbls]"
| "entry_of (Summary now data) = [summary_entry now data]"
| "entry_of (Aria now msg lbls) = [aria_entry now msg lbls]"
| "entry_of ev = []"

definition recorded :: "event list \<Rightarrow> A11yLogEntry list" where
  "recorded evs = concat (map entry_of evs)"

text \<open>The batches detached so far, oldest first, and all their entries in that order.\<close>

definition batches :: "state \<Rightarrow> A11yLogEntry list list" where
  "batches s = map (arrays s) (detached s)"

definition flushed :: "state \<Rightarrow> A11yLogEntry list" where
  "flushed s = concat (batches s)"

text \<open>
  The state of \<open>flushLogs\<close> right after \<open>logsToSend = [...logBuffer]; logBuffer = []\<close>.
\<close>

definition detach :: "state \<Rightarrow> state" where
  "detach s = s\<lparr>arrays := (arrays s)(next_addr s := queue s, Suc (next_addr s) := []),
               next_addr := Suc (Suc (next_addr s)), logBuffer := Suc (next_addr s),
               detached := detached s @ [next_addr s]\<rparr>"

text \<open>The empty label bag \<open>{}\<close> of a contrast call, and a sample entry.\<close>

definition no_contrast_labels :: ContrastLabels where
  "no_contrast_labels = \<lparr>
     c_sessionId = None, c_selector = None, c_ratio = None, c_requiredRatio = None,
     c_foreground = None, c_background = None, c_wcagLevel = None, c_elementInfo = None,
     c_page = None, c_theme = None \<rparr>"

text \<open>
  The defaulting rule in words: a label takes its default when the caller omits the field
  or supplies a falsy value (the empty string; \<open>0\<close> or \<open>NaN\<close>), and the supplied value
  otherwise.
\<close>

definition string_label :: "string option \<Rightarrow> string \<Rightarrow> label_value" where
  "string_label supplied dflt =
     Str (case supplied of None \<Rightarrow> dflt | Some v \<Rightarrow> if v = [] then dflt else v)"

definition number_label :: "number option \<Rightarrow> number \<Rightarrow> label_value" where
  "number_label supplied dflt =
     Number (case supplied of None \<Rightarrow> dflt | Some v \<Rightarrow> if v = Num 0 \<or> v = NaN then dflt else v)"

text \<open>Sample settings and a sample run, used to instantiate the theorems.\<close>

definition dev_settings :: A11yLoggerConfig where
  "dev_settings = empty_config\<lparr>isDevelopment_opt := Value True\<rparr>"

definition loki_settings :: A11yLoggerConfig where
  "loki_settings = empty_config\<lparr>lokiEnabled_opt := Value True\<rparr>"

definition two_calls :: "event list" where
  "two_calls =
     [Contrast 1750000000001 ''low'' (no_contrast_labels\<lparr>c_ratio := Some (Num 2)\<rparr>),
      ErrorEvent 1750000000002 ''boom'' \<lparr>er_sessionId = None, er_error = None, er_stack = None\<rparr>]"

definition dev_run :: state where
  "dev_run = run (Configure dev_settings # two_calls) (initial_state True True)"

definition loki_run :: state where
  "loki_run = run (Configure loki_settings # two_calls) (initial_state True True)"

definition one_settings :: A11yLoggerConfig where
  "one_settings = empty_config\<lparr>maxBufferSize_opt := Value (Num 1)\<rparr>"

definition two_settings :: A11yLoggerConfig where
  "two_settings = empty_config\<lparr>maxBufferSize_opt := Value (Num 2)\<rparr>"

definition no_wcag_labels :: WcagLabels where
  "no_wcag_labels = \<lparr>
     w_sessionId = None, w_selector = None, w_rule = None, w_wcagLevel = None,
     w_severity = None \<rparr>"

text \<open>
  The scheduler's invariant: the runtime holds exactly the timeout whose handle is stored,
  and a handle is stored exactly when the queue is non-empty.
\<close>

definition timer_inv :: "state \<Rightarrow> bool" where
  "timer_inv s \<longleftrightarrow>
     map handle (timers s) = (case flushTimer s of None \<Rightarrow> [] | Some h \<Rightarrow> [h])
     \<and> (flushTimer s = None \<longleftrightarrow> queue s = [])"

text \<open>
  The store's invariant: the queue and every detached batch are allocated arrays, and no
  detached batch is the queue.
\<close>

definition store_inv :: "state \<Rightarrow> bool" where
  "store_inv s \<longleftrightarrow>
     logBuffer s < next_addr s
     \<and> (\<forall>a \<in> set (detached s). a < next_addr s \<and> a \<noteq> logBuffer s)"

text \<open>A run in which a timed flush fires and the settings then change.\<close>

definition timed_flush_run :: "event list" where
  "timed_flush_run =
     [Configure two_settings, Contrast 1 ''a'' no_contrast_labels, TimerFires 1]"

text \<open>
  \<open>extends s s'\<close>: the store of \<open>s'\<close> grew out of the store of \<open>s\<close>. Arrays of \<open>s\<close> other
  than its queue are unchanged, the queue of \<open>s'\<close> is that of \<open>s\<close> or a newer array, and
  the batches detached since are newer arrays.
\<close>

definition extends :: "state \<Rightarrow> state \<Rightarrow> bool" where
  "extends s s' \<longleftrightarrow>
     store_inv s'
     \<and> next_addr s \<le> next_addr s'
     \<and> (logBuffer s' = logBuffer s \<or> next_addr s \<le> logBuffer s')
     \<and> (\<forall>a < next_addr s. a \<noteq> logBuffer s \<longrightarrow> arrays s' a = arrays s a)
     \<and> (\<exists>new. detached s' = detached s @ new \<and> (\<forall>a \<in> set new. next_addr s \<le> a))"

text \<open>A run in which an entry is recorded while a send is in flight, which then fails.\<close>

definition send_run :: "event list" where
  "send_run = Configure loki_settings # two_calls @ [Flush]"

definition during_send :: "event list" where
  "during_send = [Wcag 1750000000003 ''late'' no_wcag_labels, FetchSettles 0 (Rejects ''down'')]"

text \<open>
  \<open>foreign a s\<close>: \<open>a\<close> is an allocated array that is neither the queue nor a detached
  batch, such as an array that \<open>_getLogBuffer\<close> returned.
\<close>

definition foreign :: "nat \<Rightarrow> state \<Rightarrow> bool" where
  "foreign a s \<longleftrightarrow> a < next_addr s \<and> a \<noteq> logBuffer s \<and> a \<notin> set (detached s)"

text \<open>The state in which the array at \<open>a\<close> holds \<open>x\<close> instead.\<close>

definition poke :: "nat \<Rightarrow> A11yLogEntry list \<Rightarrow> state \<Rightarrow> state" where
  "poke a x s = s\<lparr>arrays := (arrays s)(a := x)\<rparr>"



section \<open>Basic facts\<close>

lemmas runtime_defs = new_array_def setTimeout_def clearTimeout_def unref_def
  console_log_call_def console_error_call_def fetch_def queue_def





lemma truthy_number_iff: "truthy_number v \<longleftrightarrow> v \<noteq> Num 0 \<and> v \<noteq> NaN"
  by (cases v) auto

lemma or_string_label: "Str (or_string x d) = string_label x d"
  by (simp add: or_string_def string_label_def truthy_string_def split: option.splits)

lemma or_number_label: "Number (or_number x d) = number_label x d"
  by (simp add: or_number_def number_label_def truthy_number_iff split: option.splits)

lemma echo_fold:
  "fold (\<lambda>lg st. if dev then console_log_call (echo_text lg) (labels lg) st else st) xs s
   = s\<lparr>console_log := console_log s @ (if dev then map (\<lambda>lg. (echo_text lg, labels lg)) xs else [])\<rparr>"
  by (induction xs arbitrary: s) (auto simp: console_log_call_def)

lemma echo_text_cases:
  "echo_text lg =
     ''[A11y '' @ (case level lg of Info \<Rightarrow> ''INFO'' | Warn \<Rightarrow> ''WARN'' | Error \<Rightarrow> ''ERROR'')
       @ ''] '' @ message lg"
proof -
  have "toUpperCase ''info'' = ''INFO''" "toUpperCase ''warn'' = ''WARN''"
    "toUpperCase ''error'' = ''ERROR''"
    by code_simp+
  then show ?thesis by (cases "level lg") (simp_all add: echo_text_def)
qed

lemma flushLogs_empty: "queue s = [] \<Longrightarrow> flushLogs s = s"
  by (simp add: flushLogs_def queue_def)

lemma flushLogs_nonempty:
  "queue s \<noteq> [] \<Longrightarrow> flushLogs s =
     (if \<not> lokiEnabled (getA11yLoggerConfig (config s))
      then (detach s)\<lparr>console_log := console_log s @
              (if isDevelopment (getA11yLoggerConfig (config s))
               then map (\<lambda>lg. (echo_text lg, labels lg)) (queue s) else [])\<rparr>
      else (detach s)\<lparr>fetch_calls := fetch_calls s @
                        [push_request (getA11yLoggerConfig (config s)) (queue s)],
                      awaiting := awaiting s @ [length (fetch_calls s)]\<rparr>)"
  by (simp add: flushLogs_def detach_def runtime_defs Let_def echo_fold)

lemma flushLogs_local:
  assumes "\<not> lokiEnabled (getA11yLoggerConfig (config s))"
  shows "fetch_calls (flushLogs s) = fetch_calls s"
    and "awaiting (flushLogs s) = awaiting s"
    and "console_error (flushLogs s) = console_error s"
    and "console_log (flushLogs s) = console_log s @
          (if isDevelopment (getA11yLoggerConfig (config s))
           then map (\<lambda>lg. (echo_text lg, labels lg)) (queue s) else [])"
  using assms by (cases "queue s = []"; simp add: flushLogs_empty flushLogs_nonempty detach_def)+

lemma flushLogs_remote:
  assumes "lokiEnabled (getA11yLoggerConfig (config s))" and "queue s \<noteq> []"
  shows "fetch_calls (flushLogs s) =
           fetch_calls s @ [push_request (getA11yLoggerConfig (config s)) (queue s)]"
    and "awaiting (flushLogs s) = awaiting s @ [length (fetch_calls s)]"
    and "console_log (flushLogs s) = console_log s"
    and "console_error (flushLogs s) = console_error s"
  using assms by (simp_all add: flushLogs_nonempty detach_def)

lemma cancel_timer_frame [simp]:
  "config (cancel_timer s) = config s" "queue (cancel_timer s) = queue s"
  "arrays (cancel_timer s) = arrays s" "logBuffer (cancel_timer s) = logBuffer s"
  "next_addr (cancel_timer s) = next_addr s" "detached (cancel_timer s) = detached s"
  "console_log (cancel_timer s) = console_log s"
  "console_error (cancel_timer s) = console_error s"
  "fetch_calls (cancel_timer s) = fetch_calls s" "awaiting (cancel_timer s) = awaiting s"
  "flushTimer (cancel_timer s) = None"
  by (simp_all add: cancel_timer_def runtime_defs split: option.splits)

text \<open>The three ways a flush starts all run \<open>flushLogs\<close> on a state with the same queue,
  settings and output so far.\<close>

lemma flush_entry_points:
  assumes "f \<in> {flushLogs, flush, timer_callback}"
  obtains s0 where "f s = flushLogs s0" and "config s0 = config s" and "queue s0 = queue s"
    and "console_log s0 = console_log s" and "console_error s0 = console_error s"
    and "fetch_calls s0 = fetch_calls s" and "awaiting s0 = awaiting s"
proof -
  from assms consider "f = flushLogs" | "f = flush" | "f = timer_callback" by auto
  then show thesis
  proof cases
    case 1
    then show thesis using that [of s] by simp
  next
    case 2
    then show thesis using that [of "cancel_timer s"] by (simp add: flush_def)
  next
    case 3
    then show thesis using that [of "s\<lparr>flushTimer := None\<rparr>"]
      by (simp add: timer_callback_def queue_def)
  qed
qed

text \<open>Unfolding everything evaluates a run from a concrete state.\<close>

lemmas eval_defs = run_def contrast_def wcag_def evaluation_def session_def error_def
  summary_def aria_def addLog_def push_def ensureShutdownHook_def scheduleFlush_def
  cancel_timer_def flushLogs_def flush_def timer_callback_def resetInternalState_def
  flushLogs_resume_def getA11yLoggerConfig_def configureA11yLogger_def
  resetA11yLoggerConfig_def empty_config_def DEFAULTS_def spread_def nullish_def
  initial_state_def runtime_defs js_ge_def Let_def dev_settings_def loki_settings_def
  two_calls_def no_contrast_labels_def dev_run_def loki_run_def

lemma dev_run_facts:
  "queue dev_run =
     [contrast_entry 1750000000001 ''low'' (no_contrast_labels\<lparr>c_ratio := Some (Num 2)\<rparr>),
      error_entry 1750000000002 ''boom'' \<lparr>er_sessionId = None, er_error = None, er_stack = None\<rparr>]"
  "\<not> lokiEnabled (getA11yLoggerConfig (config dev_run))"
  "isDevelopment (getA11yLoggerConfig (config dev_run))"
  "fetch_calls dev_run = []" "console_log dev_run = []"
  by (simp_all add: eval_defs)

lemma loki_run_facts:
  "queue loki_run =
     [contrast_entry 1750000000001 ''low'' (no_contrast_labels\<lparr>c_ratio := Some (Num 2)\<rparr>),
      error_entry 1750000000002 ''boom'' \<lparr>er_sessionId = None, er_error = None, er_stack = None\<rparr>]"
  "lokiEnabled (getA11yLoggerConfig (config loki_run))"
  "fetch_calls loki_run = []" "console_log loki_run = []"
  "jobLabel_opt (config loki_run) = Absent" "containerLabel_opt (config loki_run) = Absent"
  "environment_opt (config loki_run) = Absent" "serviceLabel_opt (config loki_run) = Absent"
  "lokiUrl_opt (config loki_run) = Absent"
  by (simp_all add: eval_defs)

lemma loki_run_url:
  "lokiUrl (getA11yLoggerConfig (config loki_run)) = ''http://localhost:3100''"
  by (simp add: eval_defs)

lemma digit_chars:
  "char_of (48::nat) = CHR ''0''" "char_of (49::nat) = CHR ''1''" "char_of (50::nat) = CHR ''2''"
  "char_of (51::nat) = CHR ''3''" "char_of (52::nat) = CHR ''4''" "char_of (53::nat) = CHR ''5''"
  "char_of (54::nat) = CHR ''6''" "char_of (55::nat) = CHR ''7''" "char_of (56::nat) = CHR ''8''"
  "char_of (57::nat) = CHR ''9''"
  by code_simp+

lemma push_frame [simp]:
  "queue (push e s) = queue s @ [e]" "config (push e s) = config s"
  "flushTimer (push e s) = flushTimer s" "timers (push e s) = timers s"
  "next_addr (push e s) = next_addr s" "logBuffer (push e s) = logBuffer s"
  "detached (push e s) = detached s" "fetch_calls (push e s) = fetch_calls s"
  "console_log (push e s) = console_log s" "console_error (push e s) = console_error s"
  "awaiting (push e s) = awaiting s" "next_handle (push e s) = next_handle s"
  "timer_has_unref (push e s) = timer_has_unref s"
  by (simp_all add: push_def queue_def)

lemma cancel_timer_timers:
  "timers (cancel_timer s) =
     (case flushTimer s of None \<Rightarrow> timers s | Some h \<Rightarrow> filter (\<lambda>t. handle t \<noteq> h) (timers s))"
  by (simp add: cancel_timer_def clearTimeout_def split: option.splits)

lemma flushLogs_fields:
  "flushTimer (flushLogs s) = flushTimer s" "timers (flushLogs s) = timers s"
  "config (flushLogs s) = config s" "next_handle (flushLogs s) = next_handle s"
  "queue (flushLogs s) = []"
  by (cases "queue s = []"; simp add: flushLogs_empty flushLogs_nonempty detach_def queue_def)+

lemma flushLogs_detached:
  "queue s \<noteq> [] \<Longrightarrow> detached (flushLogs s) = detached s @ [next_addr s]"
  "queue s \<noteq> [] \<Longrightarrow> arrays (flushLogs s) (next_addr s) = queue s"
  "queue s = [] \<Longrightarrow> detached (flushLogs s) = detached s"
  by (simp_all add: flushLogs_empty flushLogs_nonempty detach_def)

lemma addLog_over:
  assumes "js_ge (Num (of_nat (length (queue s) + 1))) (maxBufferSize (getA11yLoggerConfig (config s)))"
  shows "addLog e s = flush (push e s)"
  using assms by (simp add: addLog_def flush_def Let_def queue_def push_def)

lemma js_lt_not_ge: "js_lt a b \<Longrightarrow> \<not> js_ge a b"
  by (simp add: js_ge_def)

lemma addLog_under:
  assumes "\<not> js_ge (Num (of_nat (length (queue s) + 1))) (maxBufferSize (getA11yLoggerConfig (config s)))"
  shows "addLog e s = scheduleFlush (push e s)"
  using assms by (simp add: addLog_def flush_def Let_def queue_def push_def)

lemma scheduleFlush_pending: "flushTimer s = Some h \<Longrightarrow> scheduleFlush s = s"
  by (simp add: scheduleFlush_def)

lemma scheduleFlush_arm:
  assumes "flushTimer s = None"
  shows "flushTimer (scheduleFlush s) = Some (next_handle s)"
    and "map handle (timers (scheduleFlush s)) = map handle (timers s) @ [next_handle s]"
    and "map delay (timers (scheduleFlush s)) =
           map delay (timers s) @ [flushInterval (getA11yLoggerConfig (config s))]"
    and "next_handle (scheduleFlush s) = Suc (next_handle s)"
  using assms by (simp_all add: scheduleFlush_def Let_def setTimeout_def unref_def comp_def)

lemma scheduleFlush_frame [simp]:
  "queue (scheduleFlush s) = queue s" "config (scheduleFlush s) = config s"
  "arrays (scheduleFlush s) = arrays s"
  "next_addr (scheduleFlush s) = next_addr s" "logBuffer (scheduleFlush s) = logBuffer s"
  "detached (scheduleFlush s) = detached s" "fetch_calls (scheduleFlush s) = fetch_calls s"
  "console_log (scheduleFlush s) = console_log s" "console_error (scheduleFlush s) = console_error s"
  "awaiting (scheduleFlush s) = awaiting s"
  by (simp_all add: scheduleFlush_def Let_def setTimeout_def unref_def queue_def split: option.splits)


lemma only_handle: "map handle ts = [h] \<Longrightarrow> filter (\<lambda>t. handle t \<noteq> h) ts = []"
  by (cases ts) auto

lemma timer_inv_flushLogs:
  "flushTimer s = None \<Longrightarrow> timers s = [] \<Longrightarrow> timer_inv (flushLogs s)"
  by (simp add: timer_inv_def flushLogs_fields)

lemma timer_inv_cancel:
  "timer_inv s \<Longrightarrow> flushTimer (cancel_timer s) = None \<and> timers (cancel_timer s) = []"
  by (auto simp: timer_inv_def cancel_timer_timers only_handle split: option.splits)

lemma timer_inv_flush: "timer_inv s \<Longrightarrow> timer_inv (flush s)"
  unfolding flush_def by (rule timer_inv_flushLogs) (simp_all add: timer_inv_cancel)

lemma timer_inv_push:
  "timer_inv s \<Longrightarrow> map handle (timers (push e s)) = (case flushTimer (push e s) of None \<Rightarrow> [] | Some h \<Rightarrow> [h])"
  by (simp add: timer_inv_def)

lemma timer_inv_schedule:
  assumes "map handle (timers s) = (case flushTimer s of None \<Rightarrow> [] | Some h \<Rightarrow> [h])"
    and "queue s \<noteq> []"
  shows "timer_inv (scheduleFlush s)"
proof (cases "flushTimer s")
  case None
  from scheduleFlush_arm(1,2) [OF None] assms None show ?thesis
    by (simp add: timer_inv_def)
next
  case (Some h)
  with assms show ?thesis by (simp add: scheduleFlush_pending timer_inv_def)
qed

lemma timer_inv_addLog: "timer_inv s \<Longrightarrow> timer_inv (addLog e s)"
proof -
  assume inv: "timer_inv s"
  show ?thesis
  proof (cases "js_ge (Num (of_nat (length (queue s) + 1))) (maxBufferSize (getA11yLoggerConfig (config s)))")
    case True
    have "timer_inv (push e s) \<or> True" by simp
    have c: "flushTimer (cancel_timer (push e s)) = None" by simp
    have "timers (cancel_timer (push e s)) = []"
      using inv by (auto simp: timer_inv_def cancel_timer_timers only_handle split: option.splits)
    with c show ?thesis
      by (simp add: addLog_over [OF True] flush_def timer_inv_flushLogs)
  next
    case False
    show ?thesis unfolding addLog_under [OF False]
      by (rule timer_inv_schedule) (use inv in \<open>simp_all add: timer_inv_def\<close>)
  qed
qed

lemma ensureShutdownHook_frame [simp]:
  "queue (ensureShutdownHook s) = queue s" "config (ensureShutdownHook s) = config s"
  "arrays (ensureShutdownHook s) = arrays s"
  "next_addr (ensureShutdownHook s) = next_addr s" "logBuffer (ensureShutdownHook s) = logBuffer s"
  "detached (ensureShutdownHook s) = detached s" "fetch_calls (ensureShutdownHook s) = fetch_calls s"
  "console_log (ensureShutdownHook s) = console_log s"
  "console_error (ensureShutdownHook s) = console_error s"
  "awaiting (ensureShutdownHook s) = awaiting s" "timers (ensureShutdownHook s) = timers s"
  "flushTimer (ensureShutdownHook s) = flushTimer s"
  "next_handle (ensureShutdownHook s) = next_handle s"
  by (simp_all add: ensureShutdownHook_def queue_def)

lemma timer_inv_hook: "timer_inv s \<Longrightarrow> timer_inv (ensureShutdownHook s)"
  by (simp add: timer_inv_def)

lemma timer_inv_funpow: "timer_inv s \<Longrightarrow> timer_inv ((flush ^^ n) s)"
  by (induction n) (simp_all add: timer_inv_flush)

lemma timer_inv_fire:
  assumes "timer_inv s" and "h \<in> handle ` set (timers s)"
  shows "flushTimer s = Some h" and "timers (clearTimeout h s) = []"
proof -
  from assms show "flushTimer s = Some h"
    by (cases "flushTimer s") (auto simp: timer_inv_def dest: arg_cong [where f = set])
  with assms(1) show "timers (clearTimeout h s) = []"
    by (simp add: timer_inv_def clearTimeout_def only_handle)
qed

lemma timer_inv_reset: "timer_inv s \<Longrightarrow> timer_inv (resetInternalState s)"
  by (auto simp: timer_inv_def resetInternalState_def Let_def new_array_def queue_def
      cancel_timer_def clearTimeout_def only_handle split: option.splits)

lemma timer_inv_step: "timer_inv s \<Longrightarrow> timer_inv (step e s)"
proof (cases e)
  case (TimerFires h)
  assume inv: "timer_inv s"
  show ?thesis
  proof (cases "h \<in> handle ` set (timers s)")
    case True
    from timer_inv_fire [OF inv True] have "timer_inv (timer_callback (clearTimeout h s))"
      unfolding timer_callback_def by (intro timer_inv_flushLogs) simp_all
    with True TimerFires show ?thesis by simp
  next
    case False
    with inv TimerFires show ?thesis by simp
  qed
next
  case (FetchSettles i out)
  assume "timer_inv s"
  then show ?thesis using FetchSettles
    by (cases out) (simp_all add: timer_inv_def flushLogs_resume_def console_error_call_def queue_def)
next
  case ResetInternalState
  assume "timer_inv s"
  then show ?thesis using ResetInternalState by (simp add: timer_inv_reset)
qed (simp_all add: contrast_def wcag_def evaluation_def session_def error_def summary_def
      aria_def timer_inv_addLog timer_inv_hook timer_inv_flush timer_inv_funpow,
     simp_all add: timer_inv_def queue_def)


lemma flushed_cong:
  "detached s' = detached s \<Longrightarrow> (\<And>a. a \<in> set (detached s) \<Longrightarrow> arrays s' a = arrays s a)
   \<Longrightarrow> flushed s' = flushed s"
  by (simp add: flushed_def batches_def cong: map_cong)

lemma extends_refl: "store_inv s \<Longrightarrow> extends s s"
  by (simp add: extends_def)

lemma extends_same:
  assumes "store_inv s" and "arrays s' = arrays s" and "next_addr s' = next_addr s"
    and "logBuffer s' = logBuffer s" and "detached s' = detached s"
  shows "extends s s'" and "flushed s' = flushed s" and "queue s' = queue s"
  using assms by (simp_all add: extends_def store_inv_def flushed_def batches_def queue_def)

lemma extends_trans:
  assumes "extends s s'" and "extends s' s''"
  shows "extends s s''"
proof -
  from assms obtain new1 new2 where
    d: "detached s' = detached s @ new1" "\<forall>a \<in> set new1. next_addr s \<le> a"
       "detached s'' = detached s' @ new2" "\<forall>a \<in> set new2. next_addr s' \<le> a"
    by (auto simp: extends_def)
  from assms have n: "next_addr s \<le> next_addr s'" "next_addr s' \<le> next_addr s''"
    by (simp_all add: extends_def)
  from assms have l: "logBuffer s' = logBuffer s \<or> next_addr s \<le> logBuffer s'"
    "logBuffer s'' = logBuffer s' \<or> next_addr s' \<le> logBuffer s''"
    by (simp_all add: extends_def)
  have frame: "arrays s'' a = arrays s a" if "a < next_addr s" "a \<noteq> logBuffer s" for a
  proof -
    from that l(1) n(1) have "a < next_addr s'" "a \<noteq> logBuffer s'" by auto
    with assms(2) have "arrays s'' a = arrays s' a" by (simp add: extends_def)
    moreover from that assms(1) have "arrays s' a = arrays s a" by (simp add: extends_def)
    ultimately show ?thesis by simp
  qed
  have "detached s'' = detached s @ (new1 @ new2)" using d by simp
  moreover have "\<forall>a \<in> set (new1 @ new2). next_addr s \<le> a" using d n by fastforce
  ultimately have "\<exists>new. detached s'' = detached s @ new \<and> (\<forall>a \<in> set new. next_addr s \<le> a)"
    by blast
  moreover from assms(2) have "store_inv s''" by (simp add: extends_def)
  moreover from l n have "logBuffer s'' = logBuffer s \<or> next_addr s \<le> logBuffer s''" by auto
  ultimately show ?thesis using n frame by (simp add: extends_def)
qed

lemma extends_batches:
  assumes "store_inv s" and "extends s s'"
  shows "take (length (batches s)) (batches s') = batches s"
proof -
  from assms(2) obtain new where d: "detached s' = detached s @ new" by (auto simp: extends_def)
  have "arrays s' a = arrays s a" if "a \<in> set (detached s)" for a
    using that assms by (auto simp: extends_def store_inv_def)
  then have "map (arrays s') (detached s) = map (arrays s) (detached s)" by simp
  with d show ?thesis by (simp add: batches_def)
qed

lemma push_moves:
  assumes "store_inv s"
  shows "extends s (push e s)" and "flushed (push e s) = flushed s"
proof -
  show "extends s (push e s)"
    using assms by (auto simp: extends_def store_inv_def push_def)
  have "arrays (push e s) a = arrays s a" if "a \<in> set (detached s)" for a
    using that assms by (auto simp: store_inv_def push_def)
  then show "flushed (push e s) = flushed s" by (intro flushed_cong) simp_all
qed

lemma flushLogs_moves:
  assumes "store_inv s"
  shows "extends s (flushLogs s)" and "flushed (flushLogs s) @ queue (flushLogs s) = flushed s @ queue s"
    and "queue s \<noteq> [] \<Longrightarrow> batches (flushLogs s) = batches s @ [queue s]"
proof -
  have old: "map ((arrays s)(next_addr s := x, Suc (next_addr s) := y)) (detached s)
               = map (arrays s) (detached s)" for x y
    using assms by (auto simp: store_inv_def)
  show "extends s (flushLogs s)"
  proof (cases "queue s = []")
    case True
    with assms show ?thesis by (simp add: flushLogs_empty extends_refl)
  next
    case False
    with assms show ?thesis
      by (auto simp: flushLogs_nonempty detach_def extends_def store_inv_def)
  qed
  show b: "batches (flushLogs s) = batches s @ [queue s]" if "queue s \<noteq> []"
    using that old by (simp add: flushLogs_nonempty detach_def batches_def)
  show "flushed (flushLogs s) @ queue (flushLogs s) = flushed s @ queue s"
  proof (cases "queue s = []")
    case True
    then show ?thesis by (simp add: flushLogs_empty)
  next
    case False
    from b [OF False] show ?thesis by (simp add: flushed_def flushLogs_fields)
  qed
qed


lemma extends_store_inv: "extends s s' \<Longrightarrow> store_inv s'"
  by (simp add: extends_def)

lemma cancel_timer_moves:
  assumes "store_inv s"
  shows "extends s (cancel_timer s)" and "flushed (cancel_timer s) = flushed s"
  by (rule extends_same(1) [OF assms]; simp) (rule extends_same(2) [OF assms]; simp)

lemma scheduleFlush_moves:
  assumes "store_inv s"
  shows "extends s (scheduleFlush s)" and "flushed (scheduleFlush s) = flushed s"
  by (rule extends_same(1) [OF assms]; simp) (rule extends_same(2) [OF assms]; simp)

lemma hook_moves:
  assumes "store_inv s"
  shows "extends s (ensureShutdownHook s)" and "flushed (ensureShutdownHook s) = flushed s"
  by (rule extends_same(1) [OF assms]; simp) (rule extends_same(2) [OF assms]; simp)

lemma flush_moves:
  assumes "store_inv s"
  shows "extends s (flush s)" and "flushed (flush s) @ queue (flush s) = flushed s @ queue s"
proof -
  note c = cancel_timer_moves [OF assms]
  from c(1) have inv: "store_inv (cancel_timer s)" by (rule extends_store_inv)
  from extends_trans [OF c(1) flushLogs_moves(1) [OF inv]] show "extends s (flush s)"
    by (simp add: flush_def)
  from flushLogs_moves(2) [OF inv] c(2)
  show "flushed (flush s) @ queue (flush s) = flushed s @ queue s"
    by (simp add: flush_def)
qed

lemma addLog_moves:
  assumes "store_inv s"
  shows "extends s (addLog e s)"
    and "flushed (addLog e s) @ queue (addLog e s) = flushed s @ queue s @ [e]"
proof -
  note p = push_moves [OF assms, of e]
  from p(1) have inv: "store_inv (push e s)" by (rule extends_store_inv)
  show "extends s (addLog e s)"
    using extends_trans [OF p(1) flush_moves(1) [OF inv]]
      extends_trans [OF p(1) scheduleFlush_moves(1) [OF inv]]
    by (cases "js_ge (Num (of_nat (length (queue s) + 1))) (maxBufferSize (getA11yLoggerConfig (config s)))")
       (simp_all add: addLog_over addLog_under)
  show "flushed (addLog e s) @ queue (addLog e s) = flushed s @ queue s @ [e]"
    using flush_moves(2) [OF inv] scheduleFlush_moves(2) [OF inv] p(2)
    by (cases "js_ge (Num (of_nat (length (queue s) + 1))) (maxBufferSize (getA11yLoggerConfig (config s)))")
       (simp_all add: addLog_over addLog_under)
qed

lemma record_moves:
  assumes "store_inv s"
  shows "extends s (addLog e (ensureShutdownHook s))"
    and "flushed (addLog e (ensureShutdownHook s)) @ queue (addLog e (ensureShutdownHook s))
           = flushed s @ queue s @ [e]"
proof -
  note h = hook_moves [OF assms]
  from h(1) have inv: "store_inv (ensureShutdownHook s)" by (rule extends_store_inv)
  from extends_trans [OF h(1) addLog_moves(1) [OF inv]]
  show "extends s (addLog e (ensureShutdownHook s))" .
  from addLog_moves(2) [OF inv] h(2)
  show "flushed (addLog e (ensureShutdownHook s)) @ queue (addLog e (ensureShutdownHook s))
           = flushed s @ queue s @ [e]"
    by simp
qed

lemma funpow_flush_moves:
  assumes "store_inv s"
  shows "extends s ((flush ^^ n) s)
     \<and> flushed ((flush ^^ n) s) @ queue ((flush ^^ n) s) = flushed s @ queue s"
proof (induction n)
  case 0
  from assms show ?case by (simp add: extends_refl)
next
  case (Suc n)
  then have ext: "extends s ((flush ^^ n) s)" by simp
  then have inv: "store_inv ((flush ^^ n) s)" by (rule extends_store_inv)
  from extends_trans [OF ext flush_moves(1) [OF inv]] flush_moves(2) [OF inv] Suc
  show ?case by simp
qed

lemma fire_moves:
  assumes "store_inv s"
  shows "extends s (timer_callback (clearTimeout h s))"
    and "flushed (timer_callback (clearTimeout h s)) @ queue (timer_callback (clearTimeout h s))
           = flushed s @ queue s"
proof -
  let ?s = "(clearTimeout h s)\<lparr>flushTimer := None\<rparr>"
  note c = extends_same [OF assms, of ?s]
  have same: "arrays ?s = arrays s" "next_addr ?s = next_addr s" "logBuffer ?s = logBuffer s"
    "detached ?s = detached s"
    by (simp_all add: clearTimeout_def)
  from c(1) [OF same] have inv: "store_inv ?s" by (rule extends_store_inv)
  from extends_trans [OF c(1) [OF same] flushLogs_moves(1) [OF inv]]
  show "extends s (timer_callback (clearTimeout h s))" by (simp add: timer_callback_def)
  from flushLogs_moves(2) [OF inv] c(2,3) [OF same]
  show "flushed (timer_callback (clearTimeout h s)) @ queue (timer_callback (clearTimeout h s))
           = flushed s @ queue s"
    by (simp add: timer_callback_def)
qed

lemma settle_moves:
  assumes "store_inv s"
  shows "extends s (snd (flushLogs_resume out (s\<lparr>awaiting := xs\<rparr>)))"
    and "flushed (snd (flushLogs_resume out (s\<lparr>awaiting := xs\<rparr>))) = flushed s"
    and "queue (snd (flushLogs_resume out (s\<lparr>awaiting := xs\<rparr>))) = queue s"
proof -
  let ?s = "snd (flushLogs_resume out (s\<lparr>awaiting := xs\<rparr>))"
  have same: "arrays ?s = arrays s" "next_addr ?s = next_addr s" "logBuffer ?s = logBuffer s"
    "detached ?s = detached s"
    by (cases out; simp add: flushLogs_resume_def console_error_call_def)+
  from extends_same [OF assms same]
  show "extends s ?s" and "flushed ?s = flushed s" and "queue ?s = queue s" .
qed

lemma config_moves:
  assumes "store_inv s"
  shows "extends s (s\<lparr>config := c\<rparr>)" and "flushed (s\<lparr>config := c\<rparr>) = flushed s"
    and "queue (s\<lparr>config := c\<rparr>) = queue s"
proof -
  have same: "arrays (s\<lparr>config := c\<rparr>) = arrays s" "next_addr (s\<lparr>config := c\<rparr>) = next_addr s"
    "logBuffer (s\<lparr>config := c\<rparr>) = logBuffer s" "detached (s\<lparr>config := c\<rparr>) = detached s"
    by simp_all
  from extends_same [OF assms same]
  show "extends s (s\<lparr>config := c\<rparr>)" and "flushed (s\<lparr>config := c\<rparr>) = flushed s"
    and "queue (s\<lparr>config := c\<rparr>) = queue s" .
qed

lemma reset_extends:
  assumes "store_inv s"
  shows "extends s (resetInternalState s)"
  using assms
  by (auto simp: resetInternalState_def Let_def new_array_def extends_def store_inv_def)

lemma step_extends:
  assumes "store_inv s"
  shows "extends s (step e s)"
proof (cases e)
  case (TimerFires h)
  with assms show ?thesis by (simp add: fire_moves extends_refl)
next
  case (FetchSettles i out)
  with assms show ?thesis by (simp add: settle_moves extends_refl)
next
  case BeforeExit
  with assms show ?thesis by (simp add: funpow_flush_moves)
next
  case ResetInternalState
  with assms show ?thesis by (simp add: reset_extends)
qed (use assms in \<open>simp_all add: contrast_def wcag_def evaluation_def session_def error_def
      summary_def aria_def record_moves flush_moves config_moves\<close>)

lemma step_accounts:
  assumes "store_inv s" and "e \<noteq> ResetInternalState"
  shows "flushed (step e s) @ queue (step e s) = flushed s @ queue s @ entry_of e"
proof (cases e)
  case (TimerFires h)
  with assms show ?thesis by (simp add: fire_moves)
next
  case (FetchSettles i out)
  with assms show ?thesis by (simp add: settle_moves)
next
  case BeforeExit
  with assms show ?thesis by (simp add: funpow_flush_moves)
qed (use assms in \<open>simp_all add: contrast_def wcag_def evaluation_def session_def error_def
      summary_def aria_def record_moves flush_moves config_moves\<close>)

lemma run_extends: "store_inv s \<Longrightarrow> extends s (run evs s)"
proof (induction evs arbitrary: s)
  case Nil
  then show ?case by (simp add: run_def extends_refl)
next
  case (Cons e evs)
  from step_extends [OF Cons.prems] have 1: "extends s (step e s)" .
  then have "store_inv (step e s)" by (rule extends_store_inv)
  from Cons.IH [OF this] have "extends (step e s) (run (e # evs) s)" by (simp add: run_def)
  with 1 show ?case by (rule extends_trans)
qed

lemma run_accounts:
  "store_inv s \<Longrightarrow> ResetInternalState \<notin> set evs
   \<Longrightarrow> flushed (run evs s) @ queue (run evs s) = flushed s @ queue s @ recorded evs"
proof (induction evs arbitrary: s)
  case Nil
  then show ?case by (simp add: run_def recorded_def)
next
  case (Cons e evs)
  from Cons.prems have e: "e \<noteq> ResetInternalState" and rest: "ResetInternalState \<notin> set evs"
    by auto
  from step_extends [OF Cons.prems(1)] have "store_inv (step e s)" by (rule extends_store_inv)
  from Cons.IH [OF this rest] step_accounts [OF Cons.prems(1) e]
  show ?case by (simp add: run_def recorded_def)
qed

lemma run_append: "run (evs1 @ evs2) s = run evs2 (run evs1 s)"
  by (simp add: run_def)

lemma store_inv_initial: "store_inv (initial_state proc u)"
  by (simp add: store_inv_def initial_state_def)


lemma flushLogs_errors:
  "flushLogs (s\<lparr>console_error := c\<rparr>) = (flushLogs s)\<lparr>console_error := c\<rparr>"
  by (simp add: flushLogs_def Let_def runtime_defs echo_fold)

lemma cancel_timer_errors:
  "cancel_timer (s\<lparr>console_error := c\<rparr>) = (cancel_timer s)\<lparr>console_error := c\<rparr>"
  by (simp add: cancel_timer_def clearTimeout_def split: option.splits)

lemma scheduleFlush_errors:
  "scheduleFlush (s\<lparr>console_error := c\<rparr>) = (scheduleFlush s)\<lparr>console_error := c\<rparr>"
  by (simp add: scheduleFlush_def Let_def setTimeout_def unref_def split: option.splits)

lemma push_errors:
  "push e (s\<lparr>console_error := c\<rparr>) = (push e s)\<lparr>console_error := c\<rparr>"
  by (simp add: push_def)

lemma hook_errors:
  "ensureShutdownHook (s\<lparr>console_error := c\<rparr>) = (ensureShutdownHook s)\<lparr>console_error := c\<rparr>"
  by (simp add: ensureShutdownHook_def)

lemma flush_errors:
  "flush (s\<lparr>console_error := c\<rparr>) = (flush s)\<lparr>console_error := c\<rparr>"
  by (simp add: flush_def cancel_timer_errors flushLogs_errors)

lemma addLog_errors:
  "addLog e (s\<lparr>console_error := c\<rparr>) = (addLog e s)\<lparr>console_error := c\<rparr>"
  by (simp add: addLog_def Let_def push_errors cancel_timer_errors flushLogs_errors
      scheduleFlush_errors)

lemma funpow_flush_errors:
  "(flush ^^ n) (s\<lparr>console_error := c\<rparr>) = ((flush ^^ n) s)\<lparr>console_error := c\<rparr>"
  by (induction n) (simp_all add: flush_errors)

lemma reset_errors:
  "resetInternalState (s\<lparr>console_error := c\<rparr>) = (resetInternalState s)\<lparr>console_error := c\<rparr>"
  by (simp add: resetInternalState_def Let_def cancel_timer_errors new_array_def)

lemma fire_errors:
  "timer_callback (clearTimeout h (s\<lparr>console_error := c\<rparr>))
     = (timer_callback (clearTimeout h s))\<lparr>console_error := c\<rparr>"
proof -
  have "(clearTimeout h (s\<lparr>console_error := c\<rparr>))\<lparr>flushTimer := None\<rparr>
          = ((clearTimeout h s)\<lparr>flushTimer := None\<rparr>)\<lparr>console_error := c\<rparr>"
    by (simp add: clearTimeout_def)
  then show ?thesis unfolding timer_callback_def by (simp only: flushLogs_errors)
qed

lemma step_errors:
  "(step e (s\<lparr>console_error := c\<rparr>))\<lparr>console_error := []\<rparr> = (step e s)\<lparr>console_error := []\<rparr>"
proof (cases e)
  case (FetchSettles i out)
  then show ?thesis
    by (cases out) (simp_all add: flushLogs_resume_def console_error_call_def)
next
  case (TimerFires h)
  then show ?thesis by (simp add: fire_errors)
qed (simp_all add: contrast_def wcag_def evaluation_def session_def error_def summary_def aria_def
      addLog_errors hook_errors flush_errors funpow_flush_errors reset_errors)

lemma step_errors_cong:
  assumes "s1\<lparr>console_error := []\<rparr> = s2\<lparr>console_error := []\<rparr>"
  shows "(step e s1)\<lparr>console_error := []\<rparr> = (step e s2)\<lparr>console_error := []\<rparr>"
proof -
  have "(step e s)\<lparr>console_error := []\<rparr> = (step e (s\<lparr>console_error := []\<rparr>))\<lparr>console_error := []\<rparr>"
    for s
    using step_errors [where s = "s\<lparr>console_error := []\<rparr>" and c = "console_error s" and e = e]
    by simp
  from this [of s1] this [of s2] assms show ?thesis by simp
qed

lemma run_errors:
  "s1\<lparr>console_error := []\<rparr> = s2\<lparr>console_error := []\<rparr>
   \<Longrightarrow> (run evs s1)\<lparr>console_error := []\<rparr> = (run evs s2)\<lparr>console_error := []\<rparr>"
proof (induction evs arbitrary: s1 s2)
  case Nil
  then show ?case by (simp add: run_def)
next
  case (Cons e evs)
  from Cons.IH [OF step_errors_cong [OF Cons.prems]] show ?case by (simp add: run_def)
qed


lemma push_poke:
  assumes "foreign a s"
  shows "push e (poke a x s) = poke a x (push e s)" and "foreign a (push e s)"
  using assms by (simp_all add: poke_def foreign_def push_def fun_upd_twist [where c = a])

lemma flushLogs_poke:
  assumes "foreign a s"
  shows "flushLogs (poke a x s) = poke a x (flushLogs s)" and "foreign a (flushLogs s)"
  using assms
  by (simp_all add: poke_def foreign_def flushLogs_def Let_def runtime_defs echo_fold
      fun_upd_twist [where c = a])

lemma cancel_timer_poke:
  assumes "foreign a s"
  shows "cancel_timer (poke a x s) = poke a x (cancel_timer s)" and "foreign a (cancel_timer s)"
  using assms
  by (simp_all add: poke_def foreign_def cancel_timer_def clearTimeout_def split: option.splits)

lemma scheduleFlush_poke:
  assumes "foreign a s"
  shows "scheduleFlush (poke a x s) = poke a x (scheduleFlush s)"
    and "foreign a (scheduleFlush s)"
  using assms
  by (simp_all add: poke_def foreign_def scheduleFlush_def Let_def setTimeout_def unref_def
      split: option.splits)

lemma hook_poke:
  assumes "foreign a s"
  shows "ensureShutdownHook (poke a x s) = poke a x (ensureShutdownHook s)"
    and "foreign a (ensureShutdownHook s)"
  using assms by (simp_all add: poke_def foreign_def ensureShutdownHook_def)

lemma flush_poke:
  assumes "foreign a s"
  shows "flush (poke a x s) = poke a x (flush s)" and "foreign a (flush s)"
  using assms by (simp_all add: flush_def cancel_timer_poke flushLogs_poke)

lemma poke_view:
  assumes "foreign a s"
  shows "queue (poke a x s) = queue s" and "config (poke a x s) = config s"
    and "timers (poke a x s) = timers s" and "flushTimer (poke a x s) = flushTimer s"
    and "beforeExit_listeners (poke a x s) = beforeExit_listeners s"
    and "awaiting (poke a x s) = awaiting s" and "fetch_calls (poke a x s) = fetch_calls s"
    and "console_log (poke a x s) = console_log s"
    and "console_error (poke a x s) = console_error s"
    and "batches (poke a x s) = batches s" and "detached (poke a x s) = detached s"
  using assms by (auto simp: poke_def foreign_def queue_def batches_def)

lemma addLog_poke:
  assumes "foreign a s"
  shows "addLog e (poke a x s) = poke a x (addLog e s)" and "foreign a (addLog e s)"
proof -
  note p = push_poke [OF assms]
  have "length (arrays (poke a x (push e s)) (logBuffer (poke a x (push e s))))
          = length (arrays (push e s) (logBuffer (push e s)))"
    using poke_view(1) [OF p(2)] by (simp add: queue_def)
  then show "addLog e (poke a x s) = poke a x (addLog e s)"
    by (simp add: addLog_def Let_def p poke_view [OF p(2)] cancel_timer_poke flushLogs_poke
        scheduleFlush_poke)
  show "foreign a (addLog e s)"
    by (simp add: addLog_def Let_def p cancel_timer_poke flushLogs_poke scheduleFlush_poke)
qed

lemma funpow_flush_poke:
  assumes "foreign a s"
  shows "(flush ^^ n) (poke a x s) = poke a x ((flush ^^ n) s) \<and> foreign a ((flush ^^ n) s)"
  using assms by (induction n) (simp_all add: flush_poke)

lemma fire_poke:
  assumes "foreign a s"
  shows "timer_callback (clearTimeout h (poke a x s)) = poke a x (timer_callback (clearTimeout h s))"
    and "foreign a (timer_callback (clearTimeout h s))"
proof -
  let ?s = "(clearTimeout h s)\<lparr>flushTimer := None\<rparr>"
  have f: "foreign a ?s" using assms by (simp add: foreign_def clearTimeout_def)
  have "(clearTimeout h (poke a x s))\<lparr>flushTimer := None\<rparr> = poke a x ?s"
    by (simp add: clearTimeout_def poke_def)
  then show "timer_callback (clearTimeout h (poke a x s))
               = poke a x (timer_callback (clearTimeout h s))"
    unfolding timer_callback_def by (simp only: flushLogs_poke(1) [OF f])
  from flushLogs_poke(2) [OF f] show "foreign a (timer_callback (clearTimeout h s))"
    by (simp add: timer_callback_def)
qed

lemma reset_poke:
  assumes "foreign a s"
  shows "resetInternalState (poke a x s) = poke a x (resetInternalState s)"
    and "foreign a (resetInternalState s)"
  using assms
  by (simp_all add: poke_def foreign_def resetInternalState_def Let_def new_array_def
      cancel_timer_def clearTimeout_def fun_upd_twist [where c = a] split: option.splits)

lemma settle_poke:
  assumes "foreign a s"
  shows "snd (flushLogs_resume out ((poke a x s)\<lparr>awaiting := xs\<rparr>))
           = poke a x (snd (flushLogs_resume out (s\<lparr>awaiting := xs\<rparr>)))"
    and "foreign a (snd (flushLogs_resume out (s\<lparr>awaiting := xs\<rparr>)))"
  using assms
  by (cases out; simp add: poke_def foreign_def flushLogs_resume_def console_error_call_def)+

lemma config_poke:
  assumes "foreign a s"
  shows "(poke a x s)\<lparr>config := c\<rparr> = poke a x (s\<lparr>config := c\<rparr>)"
    and "foreign a (s\<lparr>config := c\<rparr>)"
  using assms by (simp_all add: poke_def foreign_def)

lemma step_poke:
  assumes "foreign a s"
  shows "step e (poke a x s) = poke a x (step e s)" and "foreign a (step e s)"
  using assms
  by (cases e; simp add: contrast_def wcag_def evaluation_def session_def error_def summary_def
      aria_def hook_poke addLog_poke flush_poke funpow_flush_poke fire_poke settle_poke config_poke
      reset_poke poke_view)+

lemma run_poke:
  "foreign a s \<Longrightarrow> run evs (poke a x s) = poke a x (run evs s) \<and> foreign a (run evs s)"
proof (induction evs arbitrary: s)
  case Nil
  then show ?case by (simp add: run_def)
next
  case (Cons e evs)
  from Cons.IH [OF step_poke(2) [OF Cons.prems]] step_poke(1) [OF Cons.prems]
  show ?case by (simp add: run_def)
qed













lemmas print_eval = Number_toString_def magnitude_text_def double_text_def strip_zeros_def
  shortest.simps below_def above_def nearer_def rounds_to_def round_double_def bit_length.simps
  dec_nat.simps digit_chars Let_def

text \<open>The printing on some values: exponent notation from \<open>10^21\<close> on, the shortest digits
  of a rounded value, plain digits otherwise.\<close>

lemma Number_toString_examples:
  "Number_toString 1000000000000000000000 = ''1e+21''"
  "Number_toString (- 1500000000000000000000) = ''-1.5e+21''"
  "Number_toString 999999999999999000000 = ''999999999999999000000''"
  "Number_toString 9007199254740993 = ''9007199254740992''"
  "Number_toString 42 = ''42''"
  by (simp_all add: print_eval)


section \<open>The level of a contrast entry\<close>

text \<open>
  C6. The entry that a contrast call builds has level \<open>error\<close> exactly when a ratio is
  supplied and is less than 3 by JavaScript's \<open><\<close>, and level \<open>warn\<close> in every other case:
  no ratio, or a ratio that is not less than 3. On finite numbers \<open><\<close> is the order of the
  numbers, so negative ratios give \<open>error\<close>, and 3 and everything above give \<open>warn\<close>.
\<close>

theorem contrast_level_rule:
  "(level (contrast_entry now msg lbls) = Error
      \<longleftrightarrow> (\<exists>r. c_ratio lbls = Some r \<and> js_lt r (Num 3)))
   \<and> (level (contrast_entry now msg lbls) = Warn
      \<longleftrightarrow> (c_ratio lbls = None \<or> (\<exists>r. c_ratio lbls = Some r \<and> \<not> js_lt r (Num 3))))
   \<and> (\<forall>q. js_lt (Num q) (Num 3) \<longleftrightarrow> q < 3)
   \<and> queue (push (contrast_entry now msg lbls) s) = queue s @ [contrast_entry now msg lbls]"
  by (cases "c_ratio lbls") (auto simp: contrast_entry_def push_def queue_def)

theorem contrast_level_rule_witness:
  "level (contrast_entry 0 ''low'' (no_contrast_labels\<lparr>c_ratio := Some (Num (- 1))\<rparr>)) = Error
   \<and> level (contrast_entry 0 ''edge'' (no_contrast_labels\<lparr>c_ratio := Some (Num 3)\<rparr>)) = Warn
   \<and> level (contrast_entry 0 ''none'' no_contrast_labels) = Warn"
  using contrast_level_rule [of 0 "''low''" "no_contrast_labels\<lparr>c_ratio := Some (Num (- 1))\<rparr>"]
    contrast_level_rule [of 0 "''edge''" "no_contrast_labels\<lparr>c_ratio := Some (Num 3)\<rparr>"]
    contrast_level_rule [of 0 "''none''" no_contrast_labels]
  by (simp add: no_contrast_labels_def)


section \<open>Label defaults\<close>

text \<open>
  C5, as stated, fails: a contrast call that supplies \<open>requiredRatio = 0\<close> gets the label
  \<open>requiredRatio = 4.5\<close>, not \<open>0\<close>, because the source writes \<open>labels.requiredRatio || 4.5\<close>.
\<close>

theorem requiredRatio_zero_counterexample:
  "map_of (labels (contrast_entry 0 ''m'' (no_contrast_labels\<lparr>c_requiredRatio := Some (Num 0)\<rparr>)))
     ''requiredRatio'' = Some (Number (Num (9 / 2)))
   \<and> Number (Num (9 / 2)) \<noteq> Number (Num 0)"
  by (simp add: contrast_entry_def no_contrast_labels_def or_number_def)

text \<open>
  C5, amended. For every recording call of every kind, each kind-specific label takes its
  documented default when the caller omits the field or supplies a falsy value (\<open>0\<close>,
  \<open>NaN\<close>, the empty string), and carries every other supplied value as supplied; the
  labels of a summary are the supplied counts. Each label list starts with \<open>type\<close>.
\<close>

theorem label_defaults:
  "labels (contrast_entry now msg c) = [
     (''type'', Str ''contrast''),
     (''selector'', string_label (c_selector c) ''unknown''),
     (''ratio'', number_label (c_ratio c) (Num 0)),
     (''requiredRatio'', number_label (c_requiredRatio c) (Num (9 / 2))),
     (''foreground'', string_label (c_foreground c) ''unknown''),
     (''background'', string_label (c_background c) ''unknown''),
     (''wcagLevel'', string_label (c_wcagLevel c) ''AA''),
     (''tagName'', string_label (map_option tagName (c_elementInfo c)) ''unknown''),
     (''page'', string_label (c_page c) []),
     (''theme'', string_label (c_theme c) [])]
   \<and> labels (wcag_entry now msg w) = [
     (''type'', Str ''wcag''),
     (''selector'', string_label (w_selector w) ''unknown''),
     (''rule'', string_label (w_rule w) ''unknown''),
     (''wcagLevel'', string_label (w_wcagLevel w) ''AA''),
     (''severity'', string_label (w_severity w) ''warning'')]
   \<and> labels (evaluation_entry now msg ev) = [
     (''type'', Str ''evaluation''),
     (''resultsCount'', number_label (ev_resultsCount ev) (Num 0)),
     (''issuesCount'', number_label (ev_issuesCount ev) (Num 0)),
     (''criticalCount'', number_label (ev_criticalCount ev) (Num 0)),
     (''evaluationTimeMs'', number_label (ev_evaluationTimeMs ev) (Num 0))]
   \<and> labels (session_entry now msg se) = [
     (''type'', Str ''session''),
     (''action'', string_label (se_action se) ''unknown''),
     (''userId'', string_label (se_userId se) ''anonymous''),
     (''userAgent'', string_label (se_userAgent se) ''unknown'')]
   \<and> labels (error_entry now msg er) = [
     (''type'', Str ''error''),
     (''error'', string_label (er_error er) ''unknown''),
     (''stack'', string_label (er_stack er) [])]
   \<and> labels (summary_entry now su) = [
     (''type'', Str ''summary''),
     (''totalElements'', Number (Num (of_int (su_totalElements su)))),
     (''evaluatedElements'', Number (Num (of_int (su_evaluatedElements su)))),
     (''issues'', Number (Num (of_int (su_issues su)))),
     (''criticalIssues'', Number (Num (of_int (su_criticalIssues su)))),
     (''evaluationTimeMs'', Number (Num (of_int (su_evaluationTimeMs su))))]
   \<and> labels (aria_entry now msg ar) = [
     (''type'', Str ''aria''),
     (''selector'', string_label (ar_selector ar) ''unknown''),
     (''issue'', string_label (ar_issue ar) ''unknown''),
     (''tagName'', string_label (map_option tagName (ar_elementInfo ar)) ''unknown''),
     (''fix'', string_label (ar_fix ar) []),
     (''page'', string_label (ar_page ar) [])]"
  by (simp add: contrast_entry_def wcag_entry_def evaluation_entry_def session_entry_def
      error_entry_def summary_entry_def aria_entry_def or_string_label or_number_label)

theorem label_defaults_witness:
  "labels (contrast_entry 0 ''m''
     (no_contrast_labels\<lparr>c_selector := Some ''.btn'', c_ratio := Some (Num 2),
        c_requiredRatio := Some (Num 0), c_page := Some []\<rparr>)) = [
     (''type'', Str ''contrast''),
     (''selector'', Str ''.btn''),
     (''ratio'', Number (Num 2)),
     (''requiredRatio'', Number (Num (9 / 2))),
     (''foreground'', Str ''unknown''),
     (''background'', Str ''unknown''),
     (''wcagLevel'', Str ''AA''),
     (''tagName'', Str ''unknown''),
     (''page'', Str []),
     (''theme'', Str [])]"
  using label_defaults [of 0 "''m''"
      "no_contrast_labels\<lparr>c_selector := Some ''.btn'', c_ratio := Some (Num 2),
         c_requiredRatio := Some (Num 0), c_page := Some []\<rparr>"]
  by (simp add: string_label_def number_label_def no_contrast_labels_def)


section \<open>Flushing in local mode\<close>

text \<open>
  C8. With \<open>lokiEnabled\<close> false, a flush (by \<open>flushLogs\<close> itself, by the manual \<open>flush\<close> or
  by the timer) makes no \<open>fetch\<close> call and leaves no promise pending. With
  \<open>isDevelopment\<close> true it writes one console line per queued entry, in queue order, the
  text being \<open>[A11y LEVEL] message\<close> and the context being the entry's labels; with
  \<open>isDevelopment\<close> false it writes nothing. Nothing goes to the error sink either way.
\<close>

theorem local_mode_flush:
  assumes "\<not> lokiEnabled (getA11yLoggerConfig (config s))"
    and "f \<in> {flushLogs, flush, timer_callback}"
  shows "fetch_calls (f s) = fetch_calls s
     \<and> awaiting (f s) = awaiting s
     \<and> console_error (f s) = console_error s
     \<and> console_log (f s) = console_log s @
          (if isDevelopment (getA11yLoggerConfig (config s))
           then map (\<lambda>lg. (''[A11y ''
                    @ (case level lg of Info \<Rightarrow> ''INFO'' | Warn \<Rightarrow> ''WARN'' | Error \<Rightarrow> ''ERROR'')
                    @ ''] '' @ message lg, labels lg)) (queue s)
           else [])"
proof -
  from assms(2) obtain s0 where s0: "f s = flushLogs s0" "config s0 = config s"
    "queue s0 = queue s" "console_log s0 = console_log s" "console_error s0 = console_error s"
    "fetch_calls s0 = fetch_calls s" "awaiting s0 = awaiting s"
    by (rule flush_entry_points)
  from assms(1) s0(2) have "\<not> lokiEnabled (getA11yLoggerConfig (config s0))" by simp
  from flushLogs_local [OF this] s0 show ?thesis by (simp add: echo_text_cases)
qed

theorem local_mode_flush_witness:
  "\<not> lokiEnabled (getA11yLoggerConfig (config dev_run))
   \<and> flush \<in> {flushLogs, flush, timer_callback}
   \<and> fetch_calls (flush dev_run) = []
   \<and> map fst (console_log (flush dev_run)) = [''[A11y ERROR] low'', ''[A11y ERROR] boom'']"
proof -
  have mode: "\<not> lokiEnabled (getA11yLoggerConfig (config dev_run))"
    by (rule dev_run_facts)
  have entry: "flush \<in> {flushLogs, flush, timer_callback}" by simp
  from local_mode_flush [OF mode entry] show ?thesis
    by (simp add: dev_run_facts contrast_entry_def error_entry_def)
qed


section \<open>Enqueueing\<close>

text \<open>
  C2. Let n be the queue length after the new entry is appended. If \<open>n >= maxBufferSize\<close>,
  \<open>addLog\<close> does what the manual flush does on the extended queue: the stored timer, if
  any, is cancelled in the runtime and the handle is cleared, the whole queue including
  the new entry is detached as one batch, and the queue is left empty. If
  \<open>n < maxBufferSize\<close>, nothing is flushed (no batch, no request, no console line), the
  entry stays in the queue, and a timer handle is stored afterwards: the old one, untouched,
  when there was one, and otherwise a new timeout with delay \<open>flushInterval\<close>.
\<close>

theorem addLog_threshold:
  "(js_ge (Num (of_nat (length (queue s) + 1))) (maxBufferSize (getA11yLoggerConfig (config s)))
      \<longrightarrow> addLog e s = flush (push e s)
        \<and> flushTimer (addLog e s) = None
        \<and> timers (addLog e s) =
            (case flushTimer s of None \<Rightarrow> timers s
             | Some h \<Rightarrow> filter (\<lambda>t. handle t \<noteq> h) (timers s))
        \<and> detached (addLog e s) = detached s @ [next_addr s]
        \<and> arrays (addLog e s) (next_addr s) = queue s @ [e]
        \<and> queue (addLog e s) = [])
   \<and> (js_lt (Num (of_nat (length (queue s) + 1))) (maxBufferSize (getA11yLoggerConfig (config s)))
      \<longrightarrow> queue (addLog e s) = queue s @ [e]
        \<and> detached (addLog e s) = detached s
        \<and> fetch_calls (addLog e s) = fetch_calls s
        \<and> console_log (addLog e s) = console_log s
        \<and> (case flushTimer s of
              Some h \<Rightarrow> flushTimer (addLog e s) = Some h \<and> timers (addLog e s) = timers s
            | None \<Rightarrow> flushTimer (addLog e s) = Some (next_handle s)
                \<and> map handle (timers (addLog e s)) = map handle (timers s) @ [next_handle s]
                \<and> map delay (timers (addLog e s)) =
                    map delay (timers s) @ [flushInterval (getA11yLoggerConfig (config s))]))"
proof (intro conjI impI)
  assume ge: "js_ge (Num (of_nat (length (queue s) + 1))) (maxBufferSize (getA11yLoggerConfig (config s)))"
  have ne: "queue (cancel_timer (push e s)) \<noteq> []" by simp
  show "addLog e s = flush (push e s)" using ge by (rule addLog_over)
  then have eq: "addLog e s = flushLogs (cancel_timer (push e s))" by (simp add: flush_def)
  show "flushTimer (addLog e s) = None" by (simp add: eq flushLogs_fields)
  show "timers (addLog e s) =
            (case flushTimer s of None \<Rightarrow> timers s
             | Some h \<Rightarrow> filter (\<lambda>t. handle t \<noteq> h) (timers s))"
    by (simp add: eq flushLogs_fields cancel_timer_timers split: option.splits)
  show "detached (addLog e s) = detached s @ [next_addr s]"
    using flushLogs_detached(1) [OF ne] by (simp add: eq)
  show "arrays (addLog e s) (next_addr s) = queue s @ [e]"
    using flushLogs_detached(2) [OF ne] by (simp add: eq)
  show "queue (addLog e s) = []" by (simp add: eq flushLogs_fields)
next
  assume "js_lt (Num (of_nat (length (queue s) + 1))) (maxBufferSize (getA11yLoggerConfig (config s)))"
  then have "\<not> js_ge (Num (of_nat (length (queue s) + 1))) (maxBufferSize (getA11yLoggerConfig (config s)))"
    by (rule js_lt_not_ge)
  then have eq: "addLog e s = scheduleFlush (push e s)" by (rule addLog_under)
  show "queue (addLog e s) = queue s @ [e]" "detached (addLog e s) = detached s"
    "fetch_calls (addLog e s) = fetch_calls s" "console_log (addLog e s) = console_log s"
    by (simp_all add: eq)
  show "case flushTimer s of
              Some h \<Rightarrow> flushTimer (addLog e s) = Some h \<and> timers (addLog e s) = timers s
            | None \<Rightarrow> flushTimer (addLog e s) = Some (next_handle s)
                \<and> map handle (timers (addLog e s)) = map handle (timers s) @ [next_handle s]
                \<and> map delay (timers (addLog e s)) =
                    map delay (timers s) @ [flushInterval (getA11yLoggerConfig (config s))]"
  proof (cases "flushTimer s")
    case None
    then have "flushTimer (push e s) = None" by simp
    from scheduleFlush_arm [OF this] None show ?thesis by (simp add: eq)
  next
    case (Some h)
    then have "flushTimer (push e s) = Some h" by simp
    from scheduleFlush_pending [OF this] Some show ?thesis by (simp add: eq)
  qed
qed


theorem addLog_threshold_witness:
  "js_ge (Num (of_nat (length (queue (run [Configure one_settings] (initial_state True True))) + 1)))
     (maxBufferSize (getA11yLoggerConfig (config (run [Configure one_settings] (initial_state True True)))))
   \<and> queue (addLog (wcag_entry 7 ''w'' no_wcag_labels)
        (run [Configure one_settings] (initial_state True True))) = []
   \<and> js_lt (Num (of_nat (length (queue (initial_state True True)) + 1)))
     (maxBufferSize (getA11yLoggerConfig (config (initial_state True True))))
   \<and> queue (addLog (wcag_entry 7 ''w'' no_wcag_labels) (initial_state True True))
       = [wcag_entry 7 ''w'' no_wcag_labels]
   \<and> flushTimer (addLog (wcag_entry 7 ''w'' no_wcag_labels) (initial_state True True)) = Some 1"
proof -
  have over: "js_ge (Num (of_nat (length (queue (run [Configure one_settings] (initial_state True True))) + 1)))
     (maxBufferSize (getA11yLoggerConfig (config (run [Configure one_settings] (initial_state True True)))))"
    by (simp add: eval_defs one_settings_def)
  have under: "js_lt (Num (of_nat (length (queue (initial_state True True)) + 1)))
     (maxBufferSize (getA11yLoggerConfig (config (initial_state True True))))"
    by (simp add: eval_defs)
  have init: "queue (initial_state True True) = []" "flushTimer (initial_state True True) = None"
    "next_handle (initial_state True True) = 1"
    by (simp_all add: eval_defs)
  from addLog_threshold [of "run [Configure one_settings] (initial_state True True)"
      "wcag_entry 7 ''w'' no_wcag_labels", THEN conjunct1, rule_format, OF over]
  have flushed: "queue (addLog (wcag_entry 7 ''w'' no_wcag_labels)
        (run [Configure one_settings] (initial_state True True))) = []"
    by blast
  from addLog_threshold [of "initial_state True True" "wcag_entry 7 ''w'' no_wcag_labels",
      THEN conjunct2, rule_format, OF under]
  have kept: "queue (addLog (wcag_entry 7 ''w'' no_wcag_labels) (initial_state True True))
       = [wcag_entry 7 ''w'' no_wcag_labels]"
    and armed: "flushTimer (addLog (wcag_entry 7 ''w'' no_wcag_labels) (initial_state True True))
       = Some 1"
    by (simp_all add: init)
  from over under flushed kept armed show ?thesis by blast
qed


section \<open>Flushing in remote mode\<close>

text \<open>
  C3. With \<open>lokiEnabled\<close> true, a flush of a non-empty queue of K entries makes exactly one
  \<open>fetch\<close> call: a POST to \<open>lokiUrl\<close> followed by \<open>/loki/api/v1/push\<close> whose body holds
  exactly one stream. The \<open>values\<close> of that stream are the K pairs of the queued entries in
  queue order, and its \<open>stream\<close> labels are job, container, environment and service, each
  the configured value or, when none is configured, the default.
\<close>

theorem remote_mode_flush:
  assumes "lokiEnabled (getA11yLoggerConfig (config s))"
    and "queue s \<noteq> []"
    and "f \<in> {flushLogs, flush, timer_callback}"
  shows "fetch_calls (f s) = fetch_calls s @ [\<lparr>
           url = lokiUrl (getA11yLoggerConfig (config s)) @ ''/loki/api/v1/push'',
           http_method = ''POST'',
           headers = [(''Content-Type'', ''application/json'')],
           body = [\<lparr>
             stream = [
               (''job'', case jobLabel_opt (config s) of Value v \<Rightarrow> v | _ \<Rightarrow> ''accessibility''),
               (''container'',
                  case containerLabel_opt (config s) of Value v \<Rightarrow> v | _ \<Rightarrow> ''stonewall-sveltekit''),
               (''environment'',
                  case environment_opt (config s) of Value v \<Rightarrow> v | _ \<Rightarrow> ''development''),
               (''service'',
                  case serviceLabel_opt (config s) of Value v \<Rightarrow> v | _ \<Rightarrow> ''a11y-monitoring'')],
             values = map value_pair (queue s)\<rparr>]\<rparr>]
     \<and> length (map value_pair (queue s)) = length (queue s)
     \<and> (\<forall>i < length (queue s). map value_pair (queue s) ! i = value_pair (queue s ! i))
     \<and> console_log (f s) = console_log s"
proof -
  from assms(3) obtain s0 where s0: "f s = flushLogs s0" "config s0 = config s"
    "queue s0 = queue s" "console_log s0 = console_log s" "console_error s0 = console_error s"
    "fetch_calls s0 = fetch_calls s" "awaiting s0 = awaiting s"
    by (rule flush_entry_points)
  from assms(1,2) s0 have "lokiEnabled (getA11yLoggerConfig (config s0))" "queue s0 \<noteq> []"
    by simp_all
  from flushLogs_remote [OF this] s0 show ?thesis
    by (simp add: push_request_def streams_of_def getA11yLoggerConfig_def nullish_def
        DEFAULTS_def split: property.splits)
qed

theorem remote_mode_flush_witness:
  "lokiEnabled (getA11yLoggerConfig (config loki_run)) \<and> queue loki_run \<noteq> []
   \<and> timer_callback \<in> {flushLogs, flush, timer_callback}
   \<and> map url (fetch_calls (timer_callback loki_run)) = [''http://localhost:3100/loki/api/v1/push'']
   \<and> map (map stream \<circ> body) (fetch_calls (timer_callback loki_run)) =
       [ [ [(''job'', ''accessibility''), (''container'', ''stonewall-sveltekit''),
          (''environment'', ''development''), (''service'', ''a11y-monitoring'')]]]
   \<and> map (map (length \<circ> values) \<circ> body) (fetch_calls (timer_callback loki_run)) = [ [2]]"
proof -
  have mode: "lokiEnabled (getA11yLoggerConfig (config loki_run))"
    and nonempty: "queue loki_run \<noteq> []"
    by (simp_all add: loki_run_facts)
  have entry: "timer_callback \<in> {flushLogs, flush, timer_callback}" by simp
  from remote_mode_flush [OF mode nonempty entry] show ?thesis
    by (simp add: loki_run_facts loki_run_url)
qed


section \<open>Nanosecond timestamps\<close>






section \<open>The pending timer\<close>

text \<open>
  C9, as stated, fails in its last part: a recording call after a timed flush arms no
  timer when that call itself reaches \<open>maxBufferSize\<close>. Here a timer is armed under
  \<open>maxBufferSize = 2\<close> and fires, the settings change to \<open>maxBufferSize = 1\<close>, and the next
  recording call flushes at once and leaves no timer.
\<close>

theorem rearm_counterexample:
  "map handle (timers (run (take 2 timed_flush_run) (initial_state True True))) = [1]
   \<and> detached (run timed_flush_run (initial_state True True)) = [1]
   \<and> timers (run (timed_flush_run @ [Configure one_settings, Contrast 2 ''b'' no_contrast_labels])
        (initial_state True True)) = []
   \<and> flushTimer (run (timed_flush_run @ [Configure one_settings, Contrast 2 ''b'' no_contrast_labels])
        (initial_state True True)) = None"
  by (simp add: eval_defs timed_flush_run_def one_settings_def two_settings_def)

text \<open>
  C9, amended. In every state \<open>s\<close> reached by a run from the initial state: the runtime
  holds at most one timeout, namely the one whose handle is stored; a stored handle implies
  a non-empty queue; scheduling is a no-op while a handle is stored; a firing timer runs
  \<open>flushLogs\<close> on the state in which its handle is already cleared, and leaves no handle and
  no timeout; the manual flush and the threshold flush leave no handle and no timeout; and
  a recording call made while no handle is stored (as after a timed flush) arms exactly one
  new timeout, with delay \<open>flushInterval\<close>, provided that call does not itself reach
  \<open>maxBufferSize\<close>.
\<close>

theorem single_pending_timer:
  fixes evs :: "event list" and proc unref :: bool and e :: A11yLogEntry and ev :: event
  defines "s \<equiv> run evs (initial_state proc unref)"
  shows "length (timers s) \<le> 1
     \<and> map handle (timers s) = (case flushTimer s of None \<Rightarrow> [] | Some h \<Rightarrow> [h])
     \<and> (flushTimer s \<noteq> None \<longrightarrow> queue s \<noteq> [])
     \<and> (flushTimer s \<noteq> None \<longrightarrow> scheduleFlush s = s)
     \<and> (\<forall>h \<in> handle ` set (timers s).
           step (TimerFires h) s = flushLogs ((clearTimeout h s)\<lparr>flushTimer := None\<rparr>)
           \<and> flushTimer (step (TimerFires h) s) = None
           \<and> timers (step (TimerFires h) s) = [])
     \<and> flushTimer (flush s) = None \<and> timers (flush s) = []
     \<and> (js_ge (Num (of_nat (length (queue s) + 1))) (maxBufferSize (getA11yLoggerConfig (config s)))
           \<longrightarrow> flushTimer (addLog e s) = None \<and> timers (addLog e s) = [])
     \<and> (flushTimer s = None \<and> entry_of ev \<noteq> []
           \<and> \<not> js_ge (Num 1) (maxBufferSize (getA11yLoggerConfig (config s)))
           \<longrightarrow> (\<exists>t. timers (step ev s) = [t] \<and> flushTimer (step ev s) = Some (handle t)
                 \<and> delay t = flushInterval (getA11yLoggerConfig (config s))))"
proof -
  have "timer_inv (run evs s0)" if "timer_inv s0" for s0
    using that unfolding run_def by (induction evs arbitrary: s0) (simp_all add: timer_inv_step)
  moreover have "timer_inv (initial_state proc unref)"
    by (simp add: timer_inv_def initial_state_def queue_def)
  ultimately have inv: "timer_inv s" by (simp add: s_def)
  then have handles: "map handle (timers s) = (case flushTimer s of None \<Rightarrow> [] | Some h \<Rightarrow> [h])"
    and stored: "flushTimer s = None \<longleftrightarrow> queue s = []"
    by (simp_all add: timer_inv_def)
  from handles have "length (map handle (timers s)) \<le> 1" by (simp split: option.splits)
  then have one: "length (timers s) \<le> 1" by simp
  have noop: "flushTimer s \<noteq> None \<longrightarrow> scheduleFlush s = s"
    by (auto simp: scheduleFlush_pending)
  have fire: "step (TimerFires h) s = flushLogs ((clearTimeout h s)\<lparr>flushTimer := None\<rparr>)
           \<and> flushTimer (step (TimerFires h) s) = None
           \<and> timers (step (TimerFires h) s) = []" if "h \<in> handle ` set (timers s)" for h
    using that timer_inv_fire(2) [OF inv that] by (simp add: timer_callback_def flushLogs_fields)
  from timer_inv_cancel [OF inv]
  have manual: "flushTimer (flush s) = None \<and> timers (flush s) = []"
    by (simp add: flush_def flushLogs_fields)
  have threshold: "flushTimer (addLog e s) = None \<and> timers (addLog e s) = []"
    if "js_ge (Num (of_nat (length (queue s) + 1))) (maxBufferSize (getA11yLoggerConfig (config s)))"
  proof -
    from timer_inv_cancel [OF inv] have "timers (cancel_timer (push e s)) = []"
      by (simp add: cancel_timer_timers split: option.splits)
    then show ?thesis by (simp add: addLog_over [OF that] flush_def flushLogs_fields)
  qed
  have rearm: "\<exists>t. timers (step ev s) = [t] \<and> flushTimer (step ev s) = Some (handle t)
                 \<and> delay t = flushInterval (getA11yLoggerConfig (config s))"
    if idle: "flushTimer s = None" and rec: "entry_of ev \<noteq> []"
      and under: "\<not> js_ge (Num 1) (maxBufferSize (getA11yLoggerConfig (config s)))"
  proof -
    let ?s = "ensureShutdownHook s"
    from rec obtain x where x: "step ev s = addLog x ?s"
      by (cases ev) (simp_all add: contrast_def wcag_def evaluation_def session_def error_def
          summary_def aria_def)
    from idle stored handles have empty: "queue ?s = []" "timers ?s = []" "flushTimer ?s = None"
      by simp_all
    with under
    have "\<not> js_ge (Num (of_nat (length (queue ?s) + 1))) (maxBufferSize (getA11yLoggerConfig (config ?s)))"
      by simp
    then have eq: "step ev s = scheduleFlush (push x ?s)" by (simp add: x addLog_under)
    from empty have "flushTimer (push x ?s) = None" by simp
    from scheduleFlush_arm(1,2,3) [OF this] empty
    have "flushTimer (step ev s) = Some (next_handle s)"
      and "map handle (timers (step ev s)) = [next_handle s]"
      and "map delay (timers (step ev s)) = [flushInterval (getA11yLoggerConfig (config s))]"
      by (simp_all add: eq)
    then show ?thesis by (cases "timers (step ev s)") auto
  qed
  show ?thesis
  proof (intro conjI)
    show "length (timers s) \<le> 1" by (rule one)
    show "map handle (timers s) = (case flushTimer s of None \<Rightarrow> [] | Some h \<Rightarrow> [h])"
      by (rule handles)
    show "flushTimer s \<noteq> None \<longrightarrow> queue s \<noteq> []" using stored by simp
    show "flushTimer s \<noteq> None \<longrightarrow> scheduleFlush s = s" by (rule noop)
    show "\<forall>h \<in> handle ` set (timers s).
           step (TimerFires h) s = flushLogs ((clearTimeout h s)\<lparr>flushTimer := None\<rparr>)
           \<and> flushTimer (step (TimerFires h) s) = None
           \<and> timers (step (TimerFires h) s) = []"
      using fire by (intro ballI)
    show "flushTimer (flush s) = None" "timers (flush s) = []" using manual by simp_all
    show "js_ge (Num (of_nat (length (queue s) + 1))) (maxBufferSize (getA11yLoggerConfig (config s)))
           \<longrightarrow> flushTimer (addLog e s) = None \<and> timers (addLog e s) = []"
      using threshold by (intro impI)
    show "flushTimer s = None \<and> entry_of ev \<noteq> []
           \<and> \<not> js_ge (Num 1) (maxBufferSize (getA11yLoggerConfig (config s)))
           \<longrightarrow> (\<exists>t. timers (step ev s) = [t] \<and> flushTimer (step ev s) = Some (handle t)
                 \<and> delay t = flushInterval (getA11yLoggerConfig (config s)))"
      using rearm by (intro impI) (elim conjE)
  qed
qed



theorem single_pending_timer_witness:
  "3 \<in> handle ` set (timers (run (timed_flush_run @ [Contrast 2 ''b'' no_contrast_labels,
        Flush, Contrast 3 ''c'' no_contrast_labels]) (initial_state True False)))
   \<and> timers (step (TimerFires 3) (run (timed_flush_run @ [Contrast 2 ''b'' no_contrast_labels,
        Flush, Contrast 3 ''c'' no_contrast_labels]) (initial_state True False))) = []
   \<and> flushTimer (run timed_flush_run (initial_state True False)) = None
   \<and> entry_of (Contrast 2 ''b'' no_contrast_labels) \<noteq> []
   \<and> \<not> js_ge (Num 1)
        (maxBufferSize (getA11yLoggerConfig (config (run timed_flush_run (initial_state True False)))))
   \<and> (\<exists>t. timers (step (Contrast 2 ''b'' no_contrast_labels)
               (run timed_flush_run (initial_state True False))) = [t]
          \<and> delay t = Num 1000)"
proof -
  have pending: "3 \<in> handle ` set (timers (run (timed_flush_run @
        [Contrast 2 ''b'' no_contrast_labels, Flush, Contrast 3 ''c'' no_contrast_labels])
        (initial_state True False)))"
    by (simp add: eval_defs timed_flush_run_def two_settings_def)
  have idle: "flushTimer (run timed_flush_run (initial_state True False)) = None"
    and rec: "entry_of (Contrast 2 ''b'' no_contrast_labels) \<noteq> []"
    and under: "\<not> js_ge (Num 1)
        (maxBufferSize (getA11yLoggerConfig (config (run timed_flush_run (initial_state True False)))))"
    and interval: "flushInterval (getA11yLoggerConfig
        (config (run timed_flush_run (initial_state True False)))) = Num 1000"
    by (simp_all add: eval_defs timed_flush_run_def two_settings_def)
  note thm1 = single_pending_timer [of "timed_flush_run @ [Contrast 2 ''b'' no_contrast_labels,
        Flush, Contrast 3 ''c'' no_contrast_labels]" True False]
  note thm2 = single_pending_timer [of timed_flush_run True False _ "Contrast 2 ''b'' no_contrast_labels"]
  from thm1 [THEN conjunct2, THEN conjunct2, THEN conjunct2, THEN conjunct2, THEN conjunct1,
      rule_format, OF pending]
  have fired: "timers (step (TimerFires 3) (run (timed_flush_run @ [Contrast 2 ''b'' no_contrast_labels,
        Flush, Contrast 3 ''c'' no_contrast_labels]) (initial_state True False))) = []"
    by (elim conjE)
  from thm2 [THEN conjunct2, THEN conjunct2, THEN conjunct2, THEN conjunct2, THEN conjunct2,
      THEN conjunct2, THEN conjunct2, THEN conjunct2, rule_format, OF conjI [OF idle conjI [OF rec under]]]
  have "\<exists>t. timers (step (Contrast 2 ''b'' no_contrast_labels)
               (run timed_flush_run (initial_state True False))) = [t]
          \<and> delay t = flushInterval (getA11yLoggerConfig
               (config (run timed_flush_run (initial_state True False))))"
    by blast
  with interval pending fired idle rec under show ?thesis by simp
qed


section \<open>Transport failures\<close>

text \<open>
  C4. However the promise of a \<open>fetch\<close> call settles, \<open>flushLogs\<close> and \<open>flush\<close> complete
  normally: nothing is thrown to the caller. A rejection is reported on the error sink and
  changes nothing else; a resolution changes nothing. Settling leaves the queue and the
  detached batches as they are, so a failed batch is not put back, and the queue was
  already emptied when the flush started. After a rejection every later run of the system
  ends in the same state as after a resolution, apart from what the error sink holds:
  entries are accepted and flushed as usual. The recording methods are total functions of
  the state and contain no call that can throw.
\<close>

theorem transport_failure_absorbed:
  "fst (flushLogs_resume out s) = Fulfilled \<and> fst (flush_resume out s) = Fulfilled
   \<and> snd (flushLogs_resume (Rejects err) s) =
        s\<lparr>console_error :=
            console_error s @ [(''[A11y Logger] Failed to send logs to Loki:'', err)]\<rparr>
   \<and> snd (flushLogs_resume Resolves s) = s
   \<and> queue (step (FetchSettles i out) s) = queue s
   \<and> flushed (step (FetchSettles i out) s) = flushed s
   \<and> queue (flush s) = [] \<and> queue (flushLogs s) = []
   \<and> (run evs (snd (flushLogs_resume (Rejects err) s)))\<lparr>console_error := []\<rparr>
        = (run evs (snd (flushLogs_resume Resolves s)))\<lparr>console_error := []\<rparr>"
proof (intro conjI)
  show "fst (flushLogs_resume out s) = Fulfilled" "fst (flush_resume out s) = Fulfilled"
    by (cases out; simp add: flushLogs_resume_def flush_resume_def)+
  show "snd (flushLogs_resume (Rejects err) s) =
        s\<lparr>console_error :=
            console_error s @ [(''[A11y Logger] Failed to send logs to Loki:'', err)]\<rparr>"
    by (simp add: flushLogs_resume_def console_error_call_def)
  show "snd (flushLogs_resume Resolves s) = s" by (simp add: flushLogs_resume_def)
  show "queue (step (FetchSettles i out) s) = queue s"
    "flushed (step (FetchSettles i out) s) = flushed s"
    by (cases out; simp add: flushLogs_resume_def console_error_call_def queue_def flushed_def
        batches_def)+
  show "queue (flush s) = []" "queue (flushLogs s) = []"
    by (simp_all add: flush_def flushLogs_fields)
  show "(run evs (snd (flushLogs_resume (Rejects err) s)))\<lparr>console_error := []\<rparr>
        = (run evs (snd (flushLogs_resume Resolves s)))\<lparr>console_error := []\<rparr>"
    by (rule run_errors) (simp add: flushLogs_resume_def console_error_call_def)
qed

theorem transport_failure_absorbed_witness:
  "fst (flush_resume (Rejects ''down'') (run send_run (initial_state True True))) = Fulfilled
   \<and> console_error (snd (flushLogs_resume (Rejects ''down'') (run send_run (initial_state True True))))
       = [(''[A11y Logger] Failed to send logs to Loki:'', ''down'')]
   \<and> queue (step (FetchSettles 0 (Rejects ''down'')) (run send_run (initial_state True True))) = []"
proof -
  have before: "console_error (run send_run (initial_state True True)) = []"
    "queue (run send_run (initial_state True True)) = []"
    by (simp_all add: send_run_def eval_defs)
  note absorbed = transport_failure_absorbed [of "Rejects ''down''"
      "run send_run (initial_state True True)" "''down''" 0 "[]"]
  from absorbed have "fst (flush_resume (Rejects ''down'') (run send_run (initial_state True True)))
      = Fulfilled"
    by (elim conjE)
  moreover from absorbed
  have "snd (flushLogs_resume (Rejects ''down'') (run send_run (initial_state True True)))
      = (run send_run (initial_state True True))\<lparr>console_error :=
          console_error (run send_run (initial_state True True))
            @ [(''[A11y Logger] Failed to send logs to Loki:'', ''down'')]\<rparr>"
    by (elim conjE)
  moreover from absorbed
  have "queue (step (FetchSettles 0 (Rejects ''down'')) (run send_run (initial_state True True)))
      = queue (run send_run (initial_state True True))"
    by (elim conjE)
  ultimately show ?thesis by (simp add: before)
qed


section \<open>Flush cycles\<close>

text \<open>
  C1. Take any run from the initial state that does not reset the internal state, cut at
  any point into a first part (reaching \<open>s1\<close>) and a rest (reaching \<open>s2\<close>). The entries of
  the batches detached so far, batch after batch, followed by the entries still queued,
  are exactly the entries recorded so far, in call order: every recorded entry is in exactly
  one batch or still waits in the queue, none twice and none lost. The batches that exist
  in \<open>s1\<close> are still the first batches of \<open>s2\<close>, unchanged, whatever was enqueued, flushed
  or settled in between. And a flush that starts on a non-empty queue detaches the whole
  queue as one new batch and leaves the queue empty before it returns control, that is,
  before its send can settle.
\<close>

theorem flush_cycles:
  fixes evs1 evs2 :: "event list" and proc u :: bool
  defines "s1 \<equiv> run evs1 (initial_state proc u)"
    and "s2 \<equiv> run (evs1 @ evs2) (initial_state proc u)"
  assumes no_reset: "ResetInternalState \<notin> set (evs1 @ evs2)"
  shows "flushed s2 @ queue s2 = recorded (evs1 @ evs2)
     \<and> take (length (batches s1)) (batches s2) = batches s1
     \<and> (queue s1 \<noteq> [] \<longrightarrow>
           queue (flushLogs s1) = [] \<and> batches (flushLogs s1) = batches s1 @ [queue s1])"
proof (intro conjI impI)
  have init: "store_inv (initial_state proc u)" by (rule store_inv_initial)
  have empty: "flushed (initial_state proc u) = []" "queue (initial_state proc u) = []"
    by (simp_all add: flushed_def batches_def queue_def initial_state_def)
  from run_accounts [OF init no_reset] empty
  show "flushed s2 @ queue s2 = recorded (evs1 @ evs2)" by (simp add: s2_def)
  from run_extends [OF init] have inv1: "store_inv s1"
    unfolding s1_def by (rule extends_store_inv)
  from extends_batches [OF inv1 run_extends [OF inv1, of evs2]]
  show "take (length (batches s1)) (batches s2) = batches s1"
    by (simp add: s1_def s2_def run_append)
  show "queue (flushLogs s1) = []" by (simp add: flushLogs_fields)
  assume "queue s1 \<noteq> []"
  then show "batches (flushLogs s1) = batches s1 @ [queue s1]"
    by (rule flushLogs_moves(3) [OF inv1])
qed

theorem flush_cycles_witness:
  "ResetInternalState \<notin> set (send_run @ during_send)
   \<and> batches (run (send_run @ during_send) (initial_state True True)) =
       [ [contrast_entry 1750000000001 ''low'' (no_contrast_labels\<lparr>c_ratio := Some (Num 2)\<rparr>),
         error_entry 1750000000002 ''boom''
           \<lparr>er_sessionId = None, er_error = None, er_stack = None\<rparr>]]
   \<and> flushed (run (send_run @ during_send) (initial_state True True))
       @ queue (run (send_run @ during_send) (initial_state True True)) =
       [contrast_entry 1750000000001 ''low'' (no_contrast_labels\<lparr>c_ratio := Some (Num 2)\<rparr>),
        error_entry 1750000000002 ''boom'' \<lparr>er_sessionId = None, er_error = None, er_stack = None\<rparr>,
        wcag_entry 1750000000003 ''late'' no_wcag_labels]"
proof -
  have no_reset: "ResetInternalState \<notin> set (send_run @ during_send)"
    by (simp add: send_run_def during_send_def two_calls_def)
  have before: "batches (run send_run (initial_state True True)) =
       [ [contrast_entry 1750000000001 ''low'' (no_contrast_labels\<lparr>c_ratio := Some (Num 2)\<rparr>),
         error_entry 1750000000002 ''boom''
           \<lparr>er_sessionId = None, er_error = None, er_stack = None\<rparr>]]"
    by (simp add: batches_def send_run_def eval_defs)
  have after: "length (batches (run (send_run @ during_send) (initial_state True True))) = 1"
    by (simp add: batches_def send_run_def during_send_def eval_defs no_wcag_labels_def)
  have calls: "recorded (send_run @ during_send) =
       [contrast_entry 1750000000001 ''low'' (no_contrast_labels\<lparr>c_ratio := Some (Num 2)\<rparr>),
        error_entry 1750000000002 ''boom'' \<lparr>er_sessionId = None, er_error = None, er_stack = None\<rparr>,
        wcag_entry 1750000000003 ''late'' no_wcag_labels]"
    by (simp add: recorded_def send_run_def during_send_def two_calls_def)
  note cycles = flush_cycles [of send_run during_send True True, OF no_reset]
  from cycles have "take (length (batches (run send_run (initial_state True True))))
      (batches (run (send_run @ during_send) (initial_state True True)))
      = batches (run send_run (initial_state True True))"
    by (elim conjE)
  with before after
  have kept: "batches (run (send_run @ during_send) (initial_state True True)) =
       [ [contrast_entry 1750000000001 ''low'' (no_contrast_labels\<lparr>c_ratio := Some (Num 2)\<rparr>),
         error_entry 1750000000002 ''boom''
           \<lparr>er_sessionId = None, er_error = None, er_stack = None\<rparr>]]"
    by simp
  from cycles calls
  have "flushed (run (send_run @ during_send) (initial_state True True))
       @ queue (run (send_run @ during_send) (initial_state True True)) =
       [contrast_entry 1750000000001 ''low'' (no_contrast_labels\<lparr>c_ratio := Some (Num 2)\<rparr>),
        error_entry 1750000000002 ''boom'' \<lparr>er_sessionId = None, er_error = None, er_stack = None\<rparr>,
        wcag_entry 1750000000003 ''late'' no_wcag_labels]"
    by simp
  with no_reset kept show ?thesis by (intro conjI)
qed


section \<open>The buffer copy handed to tests\<close>

text \<open>
  C10. In every state \<open>s\<close> reached by a run from the initial state, \<open>_getLogBuffer\<close>
  returns a new array \<open>a\<close> that holds the entries of the queue and is not the queue; the
  call changes nothing but the store's new cell. Whatever the caller then does to the
  elements of that array (\<open>f\<close> is any change of the list: appending, removing, replacing),
  and whatever run \<open>evs\<close> follows, the queue, the timer handle, the pending timeouts, the
  detached batches, the requests sent and the console output are what they are without
  the change: the whole state differs in the cell \<open>a\<close> only.
\<close>

theorem getLogBuffer_copy:
  fixes evs0 evs :: "event list" and proc u :: bool
    and f :: "A11yLogEntry list \<Rightarrow> A11yLogEntry list"
  defines "s \<equiv> run evs0 (initial_state proc u)"
  defines "a \<equiv> fst (getLogBuffer s)" and "s' \<equiv> snd (getLogBuffer s)"
  shows "arrays s' a = queue s
     \<and> a \<noteq> logBuffer s'
     \<and> s' = s\<lparr>arrays := (arrays s)(a := queue s), next_addr := Suc (next_addr s)\<rparr>
     \<and> run evs (mutate_array a f s') = poke a (f (queue s)) (run evs s')
     \<and> queue (run evs (mutate_array a f s')) = queue (run evs s')
     \<and> flushTimer (run evs (mutate_array a f s')) = flushTimer (run evs s')
     \<and> timers (run evs (mutate_array a f s')) = timers (run evs s')
     \<and> batches (run evs (mutate_array a f s')) = batches (run evs s')
     \<and> fetch_calls (run evs (mutate_array a f s')) = fetch_calls (run evs s')
     \<and> console_log (run evs (mutate_array a f s')) = console_log (run evs s')"
proof -
  have "store_inv s" unfolding s_def
    using run_extends [OF store_inv_initial] by (rule extends_store_inv)
  then have fresh: "foreign a s'"
    by (auto simp: store_inv_def foreign_def a_def s'_def getLogBuffer_def new_array_def)
  have copy: "arrays s' a = queue s"
    by (simp add: a_def s'_def getLogBuffer_def new_array_def queue_def)
  have call: "s' = s\<lparr>arrays := (arrays s)(a := queue s), next_addr := Suc (next_addr s)\<rparr>"
    by (simp add: a_def s'_def getLogBuffer_def new_array_def queue_def)
  have "mutate_array a f s' = poke a (f (queue s)) s'"
    by (simp add: mutate_array_def poke_def copy)
  with run_poke [OF fresh, of evs "f (queue s)"]
  have later: "run evs (mutate_array a f s') = poke a (f (queue s)) (run evs s')"
    and still: "foreign a (run evs s')"
    by simp_all
  from fresh have "a \<noteq> logBuffer s'" by (simp add: foreign_def)
  with copy call later poke_view [OF still, of "f (queue s)"] show ?thesis by simp
qed

theorem getLogBuffer_copy_witness:
  "fst (getLogBuffer (run two_calls (initial_state True True))) = 1
   \<and> queue (mutate_array 1 rev (snd (getLogBuffer (run two_calls (initial_state True True)))))
       = [contrast_entry 1750000000001 ''low'' (no_contrast_labels\<lparr>c_ratio := Some (Num 2)\<rparr>),
          error_entry 1750000000002 ''boom'' \<lparr>er_sessionId = None, er_error = None, er_stack = None\<rparr>]
   \<and> batches (run [Flush] (mutate_array 1 rev (snd (getLogBuffer (run two_calls (initial_state True True))))))
       = [ [contrast_entry 1750000000001 ''low'' (no_contrast_labels\<lparr>c_ratio := Some (Num 2)\<rparr>),
           error_entry 1750000000002 ''boom'' \<lparr>er_sessionId = None, er_error = None, er_stack = None\<rparr>]]"
proof -
  have addr: "fst (getLogBuffer (run two_calls (initial_state True True))) = 1"
    by (simp add: getLogBuffer_def eval_defs)
  have plain: "queue (snd (getLogBuffer (run two_calls (initial_state True True))))
       = [contrast_entry 1750000000001 ''low'' (no_contrast_labels\<lparr>c_ratio := Some (Num 2)\<rparr>),
          error_entry 1750000000002 ''boom'' \<lparr>er_sessionId = None, er_error = None, er_stack = None\<rparr>]"
    "batches (run [Flush] (snd (getLogBuffer (run two_calls (initial_state True True)))))
       = [ [contrast_entry 1750000000001 ''low'' (no_contrast_labels\<lparr>c_ratio := Some (Num 2)\<rparr>),
           error_entry 1750000000002 ''boom'' \<lparr>er_sessionId = None, er_error = None, er_stack = None\<rparr>]]"
    by (simp_all add: getLogBuffer_def batches_def eval_defs)
  note now = getLogBuffer_copy [where evs = "[]" and ?evs0.0 = two_calls and proc = True
      and u = True and f = rev]
  note later = getLogBuffer_copy [where evs = "[Flush]" and ?evs0.0 = two_calls and proc = True
      and u = True and f = rev]
  from now have "queue (run [] (mutate_array 1 rev (snd (getLogBuffer (run two_calls (initial_state True True))))))
      = queue (run [] (snd (getLogBuffer (run two_calls (initial_state True True)))))"
    unfolding addr by (elim conjE)
  moreover from later
  have "batches (run [Flush] (mutate_array 1 rev (snd (getLogBuffer (run two_calls (initial_state True True))))))
      = batches (run [Flush] (snd (getLogBuffer (run two_calls (initial_state True True)))))"
    unfolding addr by (elim conjE)
  ultimately show ?thesis using addr plain by (simp add: run_def)
qed

end
